theory Spec2Isabelle
  imports Main "HOL-Library.AList"
begin

section \<open>JavaScript values and JSON text\<close>

text \<open>
  The conversation pipeline of \<^verbatim>\<open>src/qa.js\<close> moves message objects between the graph state
  and a Redis key. A JavaScript string is modelled as the list of the bytes of its UTF-8
  encoding (\<^typ>\<open>string\<close>), so that \<^verbatim>\<open>Buffer.byteLength\<close> is \<^const>\<open>length\<close>. A value that can be
  written as JSON is a \<open>jsval\<close>; numbers are the integers. An object is the list of its
  properties in insertion order, and a property that is absent reads as \<^verbatim>\<open>undefined\<close>,
  which is \<^const>\<open>None\<close>.
\<close>

datatype jsval =
    JNull
  | JBool bool
  | JNum int
  | JStr string
  | JArr "jsval list"
  | JObj "(string \<times> jsval) list"

text \<open>The result of \<^verbatim>\<open>Number(x)\<close> on a configured value.\<close>

datatype jsnumber = Finite int | NaN | PosInfinity | NegInfinity

text \<open>
  \<^verbatim>\<open>{...obj, k: v}\<close>: the property keeps its place when it exists and is appended otherwise.
  A property set to \<^verbatim>\<open>undefined\<close> reads as \<^verbatim>\<open>undefined\<close> and is left out by
  \<^verbatim>\<open>JSON.stringify\<close>, exactly as an absent one; the model removes it.
\<close>

definition set_prop :: "string \<Rightarrow> jsval option \<Rightarrow> (string \<times> jsval) list \<Rightarrow> (string \<times> jsval) list" where
  "set_prop k v kvs = (case v of None \<Rightarrow> AList.delete k kvs | Some x \<Rightarrow> AList.update k x kvs)"

subsection \<open>Decimal numbers and JSON text\<close>

definition digit :: "nat \<Rightarrow> char" where
  "digit n = ''0123456789abcdef'' ! n"

fun show_nat :: "nat \<Rightarrow> string" where
  "show_nat n = (if n < 10 then [digit n] else show_nat (n div 10) @ [digit (n mod 10)])"

declare show_nat.simps [simp del]

definition show_int :: "int \<Rightarrow> string" where
  "show_int i = (if i < 0 then CHR ''-'' # show_nat (nat (- i)) else show_nat (nat i))"

text \<open>
  \<^verbatim>\<open>JSON.stringify\<close> on one character of a string: the quotation mark and the reverse solidus
  are escaped, the control characters take their short escape or \<^verbatim>\<open>\u00XX\<close>, every other
  byte is copied.
\<close>

definition quote_char :: "char \<Rightarrow> string" where
  "quote_char c =
     (let n = (of_char c :: nat) in
      if n = 0x22 then [CHR 0x5C, CHR 0x22]
      else if n = 0x5C then [CHR 0x5C, CHR 0x5C]
      else if n = 8 then [CHR 0x5C, CHR ''b'']
      else if n = 9 then [CHR 0x5C, CHR ''t'']
      else if n = 10 then [CHR 0x5C, CHR ''n'']
      else if n = 12 then [CHR 0x5C, CHR ''f'']
      else if n = 13 then [CHR 0x5C, CHR ''r'']
      else if n < 32 then [CHR 0x5C, CHR ''u'', CHR ''0'', CHR ''0'', digit (n div 16), digit (n mod 16)]
      else [c])"

definition quote :: "string \<Rightarrow> string" where
  "quote s = CHR 0x22 # concat (map quote_char s) @ [CHR 0x22]"

fun commas :: "string list \<Rightarrow> string" where
  "commas [] = []"
| "commas [x] = x"
| "commas (x # y # ys) = x @ CHR '','' # commas (y # ys)"

fun json_text :: "jsval \<Rightarrow> string" where
  "json_text JNull = ''null''"
| "json_text (JBool b) = (if b then ''true'' else ''false'')"
| "json_text (JNum n) = show_int n"
| "json_text (JStr s) = quote s"
| "json_text (JArr xs) = CHR ''['' # commas (map json_text xs) @ '']''"
| "json_text (JObj kvs) =
     CHR ''{'' # commas (map (\<lambda>(k, v). quote k @ CHR '':'' # json_text v) kvs) @ ''}''"

section \<open>The reasoning-markup pattern\<close>

text \<open>
  \<^verbatim>\<open>content.replace(/<think>[\s\S]*?<\/think>\s*/gi, "")\<close>. The flag \<^verbatim>\<open>i\<close> lets the five
  letters match in either case; no character outside ASCII folds to one of them.
\<close>

definition lower :: "char \<Rightarrow> char" where
  "lower c = (let n = (of_char c :: nat) in if 65 \<le> n \<and> n \<le> 90 then char_of (n + 32) else c)"

definition is_open :: "string \<Rightarrow> bool" where
  "is_open s = (map lower (take 7 s) = ''<think>'')"

definition is_close :: "string \<Rightarrow> bool" where
  "is_close s = (map lower (take 8 s) = ''</think>'')"

text \<open>
  The class \<^verbatim>\<open>\s\<close>: the number of bytes of the white-space character that starts the
  text, 0 when none does. Tab, line feed, vertical tab, form feed, carriage return and
  space are one byte; U+00A0 is two; U+1680, U+2000 to U+200A, U+2028, U+2029, U+202F,
  U+205F, U+3000 and U+FEFF are three.
\<close>

definition ws_width :: "string \<Rightarrow> nat" where
  "ws_width s =
     (let b = (map of_char (take 3 s) :: nat list) in
      if take 1 b \<in> {[9], [10], [11], [12], [13], [32]} then 1
      else if take 2 b = [0xC2, 0xA0] then 2
      else if b \<in> {[0xE1, 0x9A, 0x80], [0xE2, 0x80, 0xA8], [0xE2, 0x80, 0xA9],
                     [0xE2, 0x80, 0xAF], [0xE2, 0x81, 0x9F], [0xE3, 0x80, 0x80],
                     [0xEF, 0xBB, 0xBF]}
              \<or> (take 2 b = [0xE2, 0x80] \<and> length b = 3 \<and> 0x80 \<le> b ! 2 \<and> b ! 2 \<le> 0x8A)
           then 3
      else 0)"

lemma ws_width_Nil [simp]: "ws_width [] = 0"
  by (simp add: ws_width_def)

text \<open>The greedy \<^verbatim>\<open>\s*\<close> at the end of the pattern.\<close>

function skip_ws :: "string \<Rightarrow> string" where
  "skip_ws s = (if ws_width s = 0 then s else skip_ws (drop (ws_width s) s))"
  by pat_completeness auto
termination
proof (relation "measure length")
  show "wf (measure length)" by simp
next
  fix s :: string
  assume w: "ws_width s \<noteq> 0"
  then have "s \<noteq> []" by auto
  with w show "(drop (ws_width s) s, s) \<in> measure length"
    by simp
qed

declare skip_ws.simps [simp del]

text \<open>The lazy \<^verbatim>\<open>[\s\S]*?<\/think>\<close>: the text after the first closing tag, if there is one.\<close>

fun find_close :: "string \<Rightarrow> string option" where
  "find_close [] = None"
| "find_close (c # cs) = (if is_close (c # cs) then Some (drop 8 (c # cs)) else find_close cs)"

lemma find_close_length: "find_close s = Some r \<Longrightarrow> length r < length s"
  by (induction s) (auto split: if_splits)

lemma skip_ws_length: "length (skip_ws s) \<le> length s"
proof (induction s rule: skip_ws.induct)
  case (1 s)
  show ?case
  proof (cases "ws_width s = 0")
    case True
    then show ?thesis by (simp add: skip_ws.simps)
  next
    case False
    with 1 have "length (skip_ws (drop (ws_width s) s)) \<le> length (drop (ws_width s) s)" by simp
    with False show ?thesis by (subst skip_ws.simps) simp
  qed
qed

text \<open>
  The global replace scans from the left. Where the pattern matches, the match is dropped
  and the scan goes on after it; elsewhere the character is kept. An opening tag with no
  closing tag after it is no match.
\<close>

function replace_think :: "string \<Rightarrow> string" where
  "replace_think [] = []"
| "replace_think (c # cs) =
     (if is_open (c # cs) then
        (case find_close (drop 7 (c # cs)) of
           Some rest \<Rightarrow> replace_think (skip_ws rest)
         | None \<Rightarrow> c # replace_think cs)
      else c # replace_think cs)"
  by pat_completeness auto
termination
proof (relation "measure length")
  show "wf (measure length)" by simp
next
  fix c :: char and cs rest
  assume "find_close (drop 7 (c # cs)) = Some rest"
  then have "length rest < length (drop 7 (c # cs))" by (rule find_close_length)
  moreover have "length (skip_ws rest) \<le> length rest" by (rule skip_ws_length)
  ultimately show "(skip_ws rest, c # cs) \<in> measure length" by simp
qed simp_all

text \<open>
  The text starts with an unfinished opening tag, a proper prefix of \<^verbatim>\<open><think>\<close> that is not
  empty, and an opening tag follows it directly. No suffix of the text does so.
\<close>

definition unfinished_open :: "string \<Rightarrow> bool" where
  "unfinished_open s =
     list_ex (\<lambda>j. map lower (take (Suc j) s) = take (Suc j) ''<think>'' \<and> is_open (drop (Suc j) s)) [0..<6]"

fun no_unfinished_open :: "string \<Rightarrow> bool" where
  "no_unfinished_open [] = True"
| "no_unfinished_open (c # cs) = (\<not> unfinished_open (c # cs) \<and> no_unfinished_open cs)"

text \<open>The text holds a segment the pattern matches: an opening tag and a closing tag after it.\<close>

fun has_think :: "string \<Rightarrow> bool" where
  "has_think [] = False"
| "has_think (c # cs) = ((is_open (c # cs) \<and> find_close (drop 7 (c # cs)) \<noteq> None) \<or> has_think cs)"

section \<open>Messages\<close>

text \<open>
  A chat message of \<^verbatim>\<open>@langchain/core\<close> is an instance of one of the message classes, with
  its content (a string, or a list of content blocks), its two metadata objects and an
  optional id. An assistant message also carries its lists \<^verbatim>\<open>tool_calls\<close> and
  \<^verbatim>\<open>invalid_tool_calls\<close>, which the constructor sets to the empty list when it is given
  the text alone; the other classes have no such fields. \<^verbatim>\<open>RemoveMessage\<close> is the marker
  the state reducer reads; the marker whose id is \<open>REMOVE_ALL_MESSAGES\<close> clears the history.
\<close>

datatype message_class = HumanMessage | AIMessage | SystemMessage | RemoveMessage

record message =
  mtype :: message_class
  content :: jsval
  additional_kwargs :: "(string \<times> jsval) list"
  response_metadata :: "(string \<times> jsval) list"
  msg_id :: "string option"
  tool_calls :: "jsval list option"
  invalid_tool_calls :: "jsval list option"

definition REMOVE_ALL_MESSAGES :: string where
  "REMOVE_ALL_MESSAGES = ''__remove_all__''"

text \<open>\<^verbatim>\<open>new HumanMessage(text)\<close>, \<^verbatim>\<open>new AIMessage(text)\<close>.\<close>

definition new_message :: "message_class \<Rightarrow> string \<Rightarrow> message" where
  "new_message c text =
     \<lparr>mtype = c, content = JStr text, additional_kwargs = [], response_metadata = [], msg_id = None,
      tool_calls = (if c = AIMessage then Some [] else None),
      invalid_tool_calls = (if c = AIMessage then Some [] else None)\<rparr>"

text \<open>\<^verbatim>\<open>new RemoveMessage({ id: REMOVE_ALL_MESSAGES })\<close>.\<close>

definition remove_all :: message where
  "remove_all =
     \<lparr>mtype = RemoveMessage, content = JStr [], additional_kwargs = [], response_metadata = [],
      msg_id = Some REMOVE_ALL_MESSAGES, tool_calls = None, invalid_tool_calls = None\<rparr>"

datatype error =
    RedisNotConfigured
  | RedisUnavailable
  | SyntaxError
  | UnexpectedMessageType
  | InvalidStoredMessage
  | UnknownMessageId string
  | ServiceError string

subsection \<open>The stored form of a message (library)\<close>

text \<open>
  \<^verbatim>\<open>mapChatMessagesToStoredMessages\<close> and \<^verbatim>\<open>mapStoredMessagesToChatMessages\<close> are functions of
  \<^verbatim>\<open>@langchain/core\<close>, not of this repository. They are modelled by their contract: a
  message is stored as \<^verbatim>\<open>{type, data}\<close>, where \<open>type\<close> names the class and \<open>data\<close> holds the
  fields the message was built with, in this order: the content, for an assistant message
  its \<^verbatim>\<open>tool_calls\<close> and \<^verbatim>\<open>invalid_tool_calls\<close>, the two metadata objects, and the id once
  the message has one. Reading it back builds the message of that class from \<open>data\<close>,
  with the two lists as they are stored, and raises on a type it does not know. A stored
  message of a shape the library does not write is taken as an error.
\<close>

record stored_message =
  stype :: string
  sdata :: "(string \<times> jsval) list option"

definition type_name :: "message_class \<Rightarrow> string" where
  "type_name c =
     (case c of HumanMessage \<Rightarrow> ''human'' | AIMessage \<Rightarrow> ''ai''
      | SystemMessage \<Rightarrow> ''system'' | RemoveMessage \<Rightarrow> ''remove'')"

definition class_of_type :: "string \<Rightarrow> message_class option" where
  "class_of_type t =
     (if t = ''human'' then Some HumanMessage
      else if t = ''ai'' then Some AIMessage
      else if t = ''system'' then Some SystemMessage
      else None)"

definition toDict :: "message \<Rightarrow> stored_message" where
  "toDict m =
     \<lparr>stype = type_name (mtype m),
      sdata = Some ([(''content'', content m)]
                    @ (case tool_calls m of None \<Rightarrow> [] | Some cs \<Rightarrow> [(''tool_calls'', JArr cs)])
                    @ (case invalid_tool_calls m of None \<Rightarrow> []
                       | Some cs \<Rightarrow> [(''invalid_tool_calls'', JArr cs)])
                    @ [(''additional_kwargs'', JObj (additional_kwargs m)),
                       (''response_metadata'', JObj (response_metadata m))]
                    @ (case msg_id m of None \<Rightarrow> [] | Some i \<Rightarrow> [(''id'', JStr i)]))\<rparr>"

definition mapChatMessagesToStoredMessages :: "message list \<Rightarrow> stored_message list" where
  "mapChatMessagesToStoredMessages ms = map toDict ms"

definition metadata_of :: "jsval option \<Rightarrow> error + (string \<times> jsval) list" where
  "metadata_of v =
     (case v of None \<Rightarrow> Inr [] | Some (JObj kvs) \<Rightarrow> Inr kvs | Some _ \<Rightarrow> Inl InvalidStoredMessage)"

definition id_of :: "jsval option \<Rightarrow> error + string option" where
  "id_of v =
     (case v of None \<Rightarrow> Inr None | Some (JStr i) \<Rightarrow> Inr (Some i) | Some _ \<Rightarrow> Inl InvalidStoredMessage)"

definition calls_of :: "jsval option \<Rightarrow> error + jsval list option" where
  "calls_of v =
     (case v of None \<Rightarrow> Inr None | Some (JArr cs) \<Rightarrow> Inr (Some cs) | Some _ \<Rightarrow> Inl InvalidStoredMessage)"

definition mapStoredMessageToChatMessage :: "jsval \<Rightarrow> error + message" where
  "mapStoredMessageToChatMessage j =
     (case j of
        JObj kvs \<Rightarrow>
          (case (map_of kvs ''type'', map_of kvs ''data'') of
             (Some (JStr t), Some (JObj d)) \<Rightarrow>
               (case class_of_type t of
                  None \<Rightarrow> Inl UnexpectedMessageType
                | Some c \<Rightarrow>
                    (case (map_of d ''content'', metadata_of (map_of d ''additional_kwargs''),
                           metadata_of (map_of d ''response_metadata''), id_of (map_of d ''id''),
                           calls_of (map_of d ''tool_calls''),
                           calls_of (map_of d ''invalid_tool_calls'')) of
                       (Some x, Inr kw, Inr md, Inr i, Inr tc, Inr itc) \<Rightarrow>
                         Inr \<lparr>mtype = c, content = x, additional_kwargs = kw,
                              response_metadata = md, msg_id = i,
                              tool_calls = tc, invalid_tool_calls = itc\<rparr>
                     | _ \<Rightarrow> Inl InvalidStoredMessage))
           | _ \<Rightarrow> Inl InvalidStoredMessage)
      | _ \<Rightarrow> Inl InvalidStoredMessage)"

fun mapStoredMessagesToChatMessages :: "jsval list \<Rightarrow> error + message list" where
  "mapStoredMessagesToChatMessages [] = Inr []"
| "mapStoredMessagesToChatMessages (j # js) =
     (case mapStoredMessageToChatMessage j of
        Inl e \<Rightarrow> Inl e
      | Inr m \<Rightarrow>
          (case mapStoredMessagesToChatMessages js of
             Inl e \<Rightarrow> Inl e
           | Inr ms \<Rightarrow> Inr (m # ms)))"

subsection \<open>The state reducer (library)\<close>

text \<open>
  \<^verbatim>\<open>messagesStateReducer\<close> of \<^verbatim>\<open>@langchain/langgraph\<close> merges an update into the history.
  When the update holds the remove-all marker, the result is what follows its last
  occurrence. Otherwise the update is merged by id: a message with a known id replaces
  the one it names, a \<^verbatim>\<open>RemoveMessage\<close> deletes it (and raises when the id is unknown), and
  a new message is appended. Before it merges, the reducer gives every message without id
  a fresh uuid: \<open>stamp\<close>, which takes the uuids from a supply.
\<close>

fun stamp :: "(nat \<Rightarrow> string) \<Rightarrow> nat \<Rightarrow> message list \<Rightarrow> message list" where
  "stamp uuid n [] = []"
| "stamp uuid n (m # ms) =
     (case msg_id m of
        Some i \<Rightarrow> m # stamp uuid n ms
      | None \<Rightarrow> m\<lparr>msg_id := Some (uuid n)\<rparr> # stamp uuid (Suc n) ms)"

definition is_remove_all :: "message \<Rightarrow> bool" where
  "is_remove_all m = (mtype m = RemoveMessage \<and> msg_id m = Some REMOVE_ALL_MESSAGES)"

fun after_remove_all :: "message list \<Rightarrow> message list option" where
  "after_remove_all [] = None"
| "after_remove_all (m # ms) =
     (case after_remove_all ms of
        Some r \<Rightarrow> Some r
      | None \<Rightarrow> if is_remove_all m then Some ms else None)"

fun find_id :: "string \<Rightarrow> message list \<Rightarrow> nat option" where
  "find_id i [] = None"
| "find_id i (m # ms) =
     (case find_id i ms of
        Some k \<Rightarrow> Some (Suc k)
      | None \<Rightarrow> if msg_id m = Some i then Some 0 else None)"

fun merge_messages :: "message list \<Rightarrow> string list \<Rightarrow> message list \<Rightarrow> error + message list" where
  "merge_messages merged idsToRemove [] =
     Inr (filter (\<lambda>m. case msg_id m of None \<Rightarrow> True | Some i \<Rightarrow> i \<notin> set idsToRemove) merged)"
| "merge_messages merged idsToRemove (m # ms) =
     (case msg_id m of
        None \<Rightarrow>
          if mtype m = RemoveMessage then Inl (UnknownMessageId [])
          else merge_messages (merged @ [m]) idsToRemove ms
      | Some i \<Rightarrow>
          (case find_id i merged of
             Some k \<Rightarrow>
               if mtype m = RemoveMessage then merge_messages merged (i # idsToRemove) ms
               else merge_messages (merged[k := m]) (removeAll i idsToRemove) ms
           | None \<Rightarrow>
               if mtype m = RemoveMessage then Inl (UnknownMessageId i)
               else merge_messages (merged @ [m]) idsToRemove ms))"

definition messagesStateReducer :: "message list \<Rightarrow> message list \<Rightarrow> error + message list" where
  "messagesStateReducer left right =
     (case after_remove_all right of
        Some r \<Rightarrow> Inr r
      | None \<Rightarrow> merge_messages left [] right)"

subsection \<open>The summarization middleware (library)\<close>

text \<open>
  \<^verbatim>\<open>summarizationMiddleware\<close> of \<^verbatim>\<open>langchain\<close> is modelled by its contract, as the summarize
  node configures it: triggered by one message, keeping the last \<open>keep\<close> messages.
  \<^verbatim>\<open>beforeModel\<close> cuts the messages before the last \<open>keep\<close>. When nothing lies before the
  cut it resolves without messages. Otherwise it asks the model for a summary of the
  messages before the cut and resolves to the remove-all marker, one human message that
  holds the summary, and the messages after the cut as they are. The middleware catches a
  failure of the model and takes the text of the error for the summary, so the summary
  message is a parameter that does not fail: \<open>summary prefix older\<close> is the message built
  from the prefix and the messages before the cut. A number of messages to keep that is
  not a finite number is refused. The middleware moves the cut only to keep a tool call
  with its results, which the messages of this pipeline do not have.
\<close>

definition summarizationMiddleware ::
  "(string \<Rightarrow> message list \<Rightarrow> message) \<Rightarrow> jsnumber \<Rightarrow> string \<Rightarrow> message list \<Rightarrow>
   error + message list option" where
  "summarizationMiddleware summary keep prefix ms =
     (case keep of
        Finite k \<Rightarrow>
          (let cutoff = length ms - nat k
           in if cutoff = 0 then Inr None
              else Inr (Some (remove_all # (summary prefix (take cutoff ms))\<lparr>mtype := HumanMessage\<rparr>
                              # drop cutoff ms)))
      | _ \<Rightarrow> Inl (ServiceError ''keep''))"

section \<open>Configuration and the Redis store\<close>

text \<open>
  \<^verbatim>\<open>config.redis\<close> is read by \<^verbatim>\<open>qa.js\<close>; the configuration module declares no such
  section. It is a parameter, every field optional as the \<^verbatim>\<open>?.\<close> and \<^verbatim>\<open>??\<close> of the code have it. A numeric
  field holds what \<^verbatim>\<open>Number\<close> makes of the configured value.
\<close>

record redis_config =
  url :: "string option"
  keyPrefix :: "string option"
  ttlSeconds :: "jsnumber option"
  maxValueBytes :: "jsnumber option"
  summaryKeepLastN :: "jsnumber option"
  summaryPrefix :: "string option"

type_synonym config = "redis_config option"

text \<open>\<^verbatim>\<open>Number(x ?? d)\<close>.\<close>

definition number_or :: "jsnumber option \<Rightarrow> int \<Rightarrow> jsnumber" where
  "number_or x d = (case x of None \<Rightarrow> Finite d | Some n \<Rightarrow> n)"

text \<open>
  A string held by Redis is given by what \<^verbatim>\<open>JSON.parse\<close> makes of it: \<open>JsonText v\<close> is the
  text \<^verbatim>\<open>JSON.stringify\<close> writes for \<open>v\<close>, which parses to \<open>v\<close>; \<open>OtherText s\<close> is a text \<open>s\<close>
  that is not JSON, on which \<^verbatim>\<open>JSON.parse\<close> throws. The empty string is \<open>OtherText []\<close>.
\<close>

datatype redis_string = JsonText jsval | OtherText string

definition JSON_parse :: "redis_string \<Rightarrow> error + jsval" where
  "JSON_parse raw = (case raw of JsonText v \<Rightarrow> Inr v | OtherText s \<Rightarrow> Inl SyntaxError)"

definition Buffer_byteLength :: "redis_string \<Rightarrow> nat" where
  "Buffer_byteLength raw = (case raw of JsonText v \<Rightarrow> length (json_text v) | OtherText s \<Rightarrow> length s)"

datatype warning = HydrateFailed error | SummarizeFailed error | PersistFailed error

text \<open>
  What the code acts on outside the graph state: the keys of the Redis server, each with
  its value and its time to live; \<^verbatim>\<open>redisClientPromise\<close>, which holds a connected client
  or \<^verbatim>\<open>null\<close>; and the console, which collects the warnings.
\<close>

record world =
  store :: "string \<Rightarrow> (redis_string \<times> int option) option"
  client :: bool
  console :: "warning list"

definition warn :: "warning \<Rightarrow> world \<Rightarrow> world" where
  "warn x w = w\<lparr>console := console w @ [x]\<rparr>"

text \<open>
  \<open>getRedisClient\<close>: the cached client when there is one; otherwise a connection to the
  configured url. A failure leaves the promise \<^verbatim>\<open>null\<close>, and the next call tries again.
  The flag \<open>up\<close> says whether the server answers.
\<close>

definition getRedisClient :: "config \<Rightarrow> bool \<Rightarrow> world \<Rightarrow> error + world" where
  "getRedisClient cfg up w =
     (if client w then Inr w
      else case Option.bind cfg url of
             None \<Rightarrow> Inl RedisNotConfigured
           | Some u \<Rightarrow>
               if u = [] then Inl RedisNotConfigured
               else if up then Inr (w\<lparr>client := True\<rparr>)
               else Inl RedisUnavailable)"

definition redis_get :: "bool \<Rightarrow> world \<Rightarrow> string \<Rightarrow> error + redis_string option" where
  "redis_get up w key = (if up then Inr (map_option fst (store w key)) else Inl RedisUnavailable)"

definition redis_set :: "bool \<Rightarrow> world \<Rightarrow> string \<Rightarrow> redis_string \<Rightarrow> int option \<Rightarrow> error + world" where
  "redis_set up w key v ex =
     (if up then Inr (w\<lparr>store := (store w)(key \<mapsto> (v, ex))\<rparr>) else Inl RedisUnavailable)"

section \<open>The store adapter of \<^verbatim>\<open>qa.js\<close>\<close>

text \<open>
  \<open>redisKeyForThread\<close>: the prefix, \<^verbatim>\<open>"rag:mem:"\<close> when none is configured, followed by
  \<^verbatim>\<open>String(threadId || "default")\<close>. A thread id is a string or unset; the unset id and
  the empty string are falsy.
\<close>

definition key_prefix :: "config \<Rightarrow> string" where
  "key_prefix cfg = (case Option.bind cfg keyPrefix of None \<Rightarrow> ''rag:mem:'' | Some p \<Rightarrow> p)"

definition redisKeyForThread :: "config \<Rightarrow> string option \<Rightarrow> string" where
  "redisKeyForThread cfg threadId =
     (let prefix = key_prefix cfg;
          ident = (case threadId of None \<Rightarrow> ''default'' | Some t \<Rightarrow> if t = [] then ''default'' else t)
      in prefix @ ident)"

text \<open>\<^verbatim>\<open>Array.isArray(parsed?.messages) ? parsed.messages : []\<close>.\<close>

definition stored_of :: "jsval \<Rightarrow> jsval list" where
  "stored_of parsed =
     (case parsed of
        JObj kvs \<Rightarrow> (case map_of kvs ''messages'' of Some (JArr xs) \<Rightarrow> xs | _ \<Rightarrow> [])
      | _ \<Rightarrow> [])"

definition loadMessagesFromRedis ::
  "config \<Rightarrow> bool \<Rightarrow> string option \<Rightarrow> world \<Rightarrow> (error + message list) \<times> world" where
  "loadMessagesFromRedis cfg up threadId w =
     (case getRedisClient cfg up w of
        Inl e \<Rightarrow> (Inl e, w)
      | Inr w1 \<Rightarrow>
          (case redis_get up w1 (redisKeyForThread cfg threadId) of
             Inl e \<Rightarrow> (Inl e, w1)
           | Inr None \<Rightarrow> (Inr [], w1)
           | Inr (Some raw) \<Rightarrow>
               if raw = OtherText [] then (Inr [], w1)
               else (case JSON_parse raw of
                       Inl e \<Rightarrow> (Inl e, w1)
                     | Inr parsed \<Rightarrow> (mapStoredMessagesToChatMessages (stored_of parsed), w1))))"

text \<open>
  The two local functions of \<open>mapMessagesForStorage\<close>. Each takes any value, also
  \<^verbatim>\<open>undefined\<close>. \<open>stripThinkFromContent\<close> changes strings only. \<open>stripThinkFields\<close> changes
  objects only; of an array, which is an object too, the copy \<^verbatim>\<open>{...obj}\<close> keeps the
  elements under their indices.
\<close>

definition stripThinkFromContent :: "jsval option \<Rightarrow> jsval option" where
  "stripThinkFromContent x =
     (case x of Some (JStr s) \<Rightarrow> Some (JStr (replace_think s)) | _ \<Rightarrow> x)"

definition stripThinkFields :: "jsval option \<Rightarrow> jsval option" where
  "stripThinkFields obj =
     (case obj of
        Some (JObj kvs) \<Rightarrow> Some (JObj (AList.delete ''think'' kvs))
      | Some (JArr xs) \<Rightarrow>
          Some (JObj (AList.delete ''think'' (zip (map show_nat [0..<length xs]) xs)))
      | _ \<Rightarrow> obj)"

text \<open>The function that \<open>mapMessagesForStorage\<close> maps over the stored messages.\<close>

definition storage_form :: "stored_message \<Rightarrow> stored_message" where
  "storage_form m =
     (let data = (case sdata m of None \<Rightarrow> [] | Some d \<Rightarrow> d) in
      m\<lparr>sdata := Some
          (set_prop ''response_metadata'' (stripThinkFields (map_of data ''response_metadata''))
            (set_prop ''additional_kwargs'' (stripThinkFields (map_of data ''additional_kwargs''))
              (set_prop ''content'' (stripThinkFromContent (map_of data ''content'')) data)))\<rparr>)"

definition mapMessagesForStorage :: "message list \<Rightarrow> stored_message list" where
  "mapMessagesForStorage ms = map storage_form (mapChatMessagesToStoredMessages ms)"

text \<open>
  \<open>buildRedisPayload\<close>: the object that is written, as \<^verbatim>\<open>JSON.stringify\<close> sees it.
  \<open>now\<close> is the reading of \<^verbatim>\<open>Date.now()\<close>.
\<close>

definition stored_json :: "stored_message \<Rightarrow> jsval" where
  "stored_json m =
     JObj ((''type'', JStr (stype m)) # (case sdata m of None \<Rightarrow> [] | Some d \<Rightarrow> [(''data'', JObj d)]))"

definition buildRedisPayload :: "int \<Rightarrow> message list \<Rightarrow> jsval" where
  "buildRedisPayload now ms =
     JObj [(''schemaVersion'', JNum 1),
           (''updatedAt'', JNum now),
           (''messages'', JArr (map stored_json (mapMessagesForStorage ms)))]"

definition JSON_stringify :: "jsval \<Rightarrow> redis_string" where
  "JSON_stringify v = JsonText v"

definition estimateRedisValueBytes :: "int \<Rightarrow> message list \<Rightarrow> nat" where
  "estimateRedisValueBytes now ms = Buffer_byteLength (JSON_stringify (buildRedisPayload now ms))"

definition saveMessagesToRedis ::
  "config \<Rightarrow> bool \<Rightarrow> int \<Rightarrow> string option \<Rightarrow> message list \<Rightarrow> world \<Rightarrow> (error + unit) \<times> world" where
  "saveMessagesToRedis cfg up now threadId ms w =
     (case getRedisClient cfg up w of
        Inl e \<Rightarrow> (Inl e, w)
      | Inr w1 \<Rightarrow>
          (let key = redisKeyForThread cfg threadId;
               payload = buildRedisPayload now ms;
               ex = (case number_or (Option.bind cfg ttlSeconds) 0 of
                       Finite ttl \<Rightarrow> if ttl > 0 then Some ttl else None
                     | _ \<Rightarrow> None)
           in case redis_set up w1 key (JSON_stringify payload) ex of
                Inl e \<Rightarrow> (Inl e, w1)
              | Inr w2 \<Rightarrow> (Inr (), w2)))"

section \<open>The graph: hydrate, ingest, rag, summarize, persist\<close>

type_synonym document = "string \<times> string"

record graph_state =
  messages :: "message list"
  threadId :: "string option"
  input :: string
  answer :: "string option"
  rag_context :: "document list option"

text \<open>What a node returns: the channels it writes. \<^verbatim>\<open>{}\<close> writes none.\<close>

record update =
  upd_messages :: "message list option"
  upd_answer :: "string option"
  upd_context :: "document list option"

definition no_update :: update where
  "no_update = \<lparr>upd_messages = None, upd_answer = None, upd_context = None\<rparr>"

definition write_messages :: "message list \<Rightarrow> update" where
  "write_messages ms = \<lparr>upd_messages = Some ms, upd_answer = None, upd_context = None\<rparr>"

text \<open>
  The graph writes an update: the messages through the reducer, the others as they are.
  \<open>apply_update\<close> is the write of an update whose messages have their ids; \<open>stamped\<close> gives
  them to the messages of an update that have none.
\<close>

definition stamped :: "(nat \<Rightarrow> string) \<Rightarrow> update \<Rightarrow> update" where
  "stamped uuid u = u\<lparr>upd_messages := map_option (stamp uuid 0) (upd_messages u)\<rparr>"

definition apply_update :: "update \<Rightarrow> graph_state \<Rightarrow> error + graph_state" where
  "apply_update u st =
     (case (case upd_messages u of None \<Rightarrow> Inr (messages st)
            | Some ms \<Rightarrow> messagesStateReducer (messages st) ms) of
        Inl e \<Rightarrow> Inl e
      | Inr ms' \<Rightarrow>
          Inr (st\<lparr>messages := ms',
                  answer := (case upd_answer u of None \<Rightarrow> answer st | Some a \<Rightarrow> Some a),
                  rag_context := (case upd_context u of None \<Rightarrow> rag_context st | Some c \<Rightarrow> Some c)\<rparr>))"

text \<open>What the retrieval chain resolves to; each field may be missing.\<close>

record rag_result =
  res_answer :: "string option"
  res_output :: "string option"
  res_context :: "document list option"

text \<open>
  The collaborators of one turn: the retrieval chain; \<^verbatim>\<open>beforeModel\<close> of the summarization
  middleware, given the number of messages to keep, the summary prefix and the messages,
  which throws, or resolves without messages, or resolves to messages; the clock at the
  summarize and at the persist stage; whether the Redis server answers at the hydrate
  and at the persist stage; and the uuids that the reducer draws at each of the six
  writes of a turn.
\<close>

record env =
  ragChain :: "string \<Rightarrow> error + rag_result"
  beforeModel :: "jsnumber \<Rightarrow> string \<Rightarrow> message list \<Rightarrow> error + message list option"
  now_summarize :: int
  now_persist :: int
  up_hydrate :: bool
  up_persist :: bool
  uuid :: "nat \<Rightarrow> nat \<Rightarrow> string"

text \<open>\<^verbatim>\<open>state.threadId ?? "default"\<close>.\<close>

definition thread_of :: "graph_state \<Rightarrow> string" where
  "thread_of st = (case threadId st of None \<Rightarrow> ''default'' | Some t \<Rightarrow> t)"

definition hydrate :: "config \<Rightarrow> bool \<Rightarrow> graph_state \<Rightarrow> world \<Rightarrow> update \<times> world" where
  "hydrate cfg up st w =
     (case loadMessagesFromRedis cfg up (Some (thread_of st)) w of
        (Inl e, w1) \<Rightarrow> (no_update, warn (HydrateFailed e) w1)
      | (Inr restored, w1) \<Rightarrow>
          if restored = [] then (no_update, w1)
          else (write_messages (remove_all # restored), w1))"

definition ingest :: "graph_state \<Rightarrow> update" where
  "ingest st = write_messages [new_message HumanMessage (input st)]"

text \<open>\<^verbatim>\<open>String(res?.answer ?? res?.output ?? "")\<close> and \<^verbatim>\<open>res?.context ?? []\<close>.\<close>

definition answer_of :: "rag_result \<Rightarrow> string" where
  "answer_of res =
     (case res_answer res of
        Some a \<Rightarrow> a
      | None \<Rightarrow> (case res_output res of Some b \<Rightarrow> b | None \<Rightarrow> []))"

definition context_of :: "rag_result \<Rightarrow> document list" where
  "context_of res = (case res_context res of Some c \<Rightarrow> c | None \<Rightarrow> [])"

definition rag :: "(string \<Rightarrow> error + rag_result) \<Rightarrow> graph_state \<Rightarrow> error + update" where
  "rag chain st =
     (case chain (input st) of
        Inl e \<Rightarrow> Inl e
      | Inr res \<Rightarrow>
          Inr \<lparr>upd_messages = Some [new_message AIMessage (answer_of res)],
                upd_answer = Some (answer_of res),
                upd_context = Some (context_of res)\<rparr>)"

text \<open>\<^verbatim>\<open>Math.max(0, n)\<close>.\<close>

definition max0 :: "jsnumber \<Rightarrow> jsnumber" where
  "max0 n = (case n of Finite k \<Rightarrow> Finite (max 0 k) | NegInfinity \<Rightarrow> Finite 0 | _ \<Rightarrow> n)"

text \<open>The default summary prefix of the code, five characters outside ASCII, in UTF-8.\<close>

definition default_summaryPrefix :: string where
  "default_summaryPrefix =
     map char_of [0xE5, 0xAF, 0xB9, 0xE8, 0xAF, 0x9D, 0xE6, 0x91, 0x98, 0xE8, 0xA6, 0x81,
                  0xEF, 0xBC, 0x9A :: nat]"

text \<open>
  The constants of the summarize node: the system messages, which are kept; the other
  messages, which are summarized; the number of messages to keep; the summary prefix.
\<close>

definition systemMessages :: "message list \<Rightarrow> message list" where
  "systemMessages ms = filter (\<lambda>m. mtype m = SystemMessage) ms"

definition nonSystemMessages :: "message list \<Rightarrow> message list" where
  "nonSystemMessages ms = filter (\<lambda>m. mtype m \<noteq> SystemMessage \<and> mtype m \<noteq> RemoveMessage) ms"

definition keepLastN :: "config \<Rightarrow> jsnumber" where
  "keepLastN cfg = max0 (number_or (Option.bind cfg summaryKeepLastN) 6)"

definition summary_prefix :: "config \<Rightarrow> string" where
  "summary_prefix cfg = (case Option.bind cfg summaryPrefix of None \<Rightarrow> default_summaryPrefix | Some p \<Rightarrow> p)"

definition summarize ::
  "config \<Rightarrow> (jsnumber \<Rightarrow> string \<Rightarrow> message list \<Rightarrow> error + message list option) \<Rightarrow> int \<Rightarrow>
   graph_state \<Rightarrow> world \<Rightarrow> update \<times> world" where
  "summarize cfg before now st w =
     (case number_or (Option.bind cfg maxValueBytes) 0 of
        Finite maxBytes \<Rightarrow>
          if maxBytes \<le> 0 then (no_update, w)
          else if int (estimateRedisValueBytes now (messages st)) \<le> maxBytes then (no_update, w)
          else if nonSystemMessages (messages st) = [] then (no_update, w)
          else
            (case before (keepLastN cfg) (summary_prefix cfg) (nonSystemMessages (messages st)) of
               Inl e \<Rightarrow> (no_update, warn (SummarizeFailed e) w)
             | Inr None \<Rightarrow> (no_update, w)
             | Inr (Some res) \<Rightarrow>
                 (let summarizedMessages = filter (\<lambda>m. mtype m \<noteq> RemoveMessage) res
                  in if summarizedMessages = [] then (no_update, w)
                     else (write_messages (remove_all # systemMessages (messages st) @ summarizedMessages), w)))
      | _ \<Rightarrow> (no_update, w))"

definition persist :: "config \<Rightarrow> bool \<Rightarrow> int \<Rightarrow> graph_state \<Rightarrow> world \<Rightarrow> update \<times> world" where
  "persist cfg up now st w =
     (case saveMessagesToRedis cfg up now (Some (thread_of st)) (messages st) w of
        (Inl e, w1) \<Rightarrow> (no_update, warn (PersistFailed e) w1)
      | (Inr u, w1) \<Rightarrow> (no_update, w1))"

subsection \<open>One turn\<close>

text \<open>
  The compiled graph runs the nodes along its edges, from \<open>START\<close> to \<open>END\<close>. The input is
  written to the channels first, the messages through the reducer from the empty default.
  Each node reads the state and the graph writes what the node returns, the reducer
  giving an id to each message that has none. An error that a node lets escape ends the
  run.
\<close>

definition start :: "(nat \<Rightarrow> string) \<Rightarrow> graph_state \<Rightarrow> world \<Rightarrow> (error + graph_state) \<times> world" where
  "start ids inp w =
     (case messagesStateReducer [] (stamp ids 0 (messages inp)) of
        Inl e \<Rightarrow> (Inl e, w)
      | Inr ms \<Rightarrow> (Inr (inp\<lparr>messages := ms\<rparr>), w))"

definition then_node ::
  "(error + graph_state) \<times> world \<Rightarrow> (nat \<Rightarrow> string) \<Rightarrow>
   (graph_state \<Rightarrow> world \<Rightarrow> (error + update) \<times> world) \<Rightarrow> (error + graph_state) \<times> world" where
  "then_node r ids node =
     (case r of
        (Inl e, w) \<Rightarrow> (Inl e, w)
      | (Inr st, w) \<Rightarrow>
          (case node st w of
             (Inl e, w1) \<Rightarrow> (Inl e, w1)
           | (Inr u, w1) \<Rightarrow> (apply_update (stamped ids u) st, w1)))"

definition hydrate_node :: "config \<Rightarrow> env \<Rightarrow> graph_state \<Rightarrow> world \<Rightarrow> (error + update) \<times> world" where
  "hydrate_node cfg ev st w = (case hydrate cfg (up_hydrate ev) st w of (u, w1) \<Rightarrow> (Inr u, w1))"

definition ingest_node :: "graph_state \<Rightarrow> world \<Rightarrow> (error + update) \<times> world" where
  "ingest_node st w = (Inr (ingest st), w)"

definition rag_node :: "env \<Rightarrow> graph_state \<Rightarrow> world \<Rightarrow> (error + update) \<times> world" where
  "rag_node ev st w = (rag (ragChain ev) st, w)"

definition summarize_node :: "config \<Rightarrow> env \<Rightarrow> graph_state \<Rightarrow> world \<Rightarrow> (error + update) \<times> world" where
  "summarize_node cfg ev st w =
     (case summarize cfg (beforeModel ev) (now_summarize ev) st w of (u, w1) \<Rightarrow> (Inr u, w1))"

definition persist_node :: "config \<Rightarrow> env \<Rightarrow> graph_state \<Rightarrow> world \<Rightarrow> (error + update) \<times> world" where
  "persist_node cfg ev st w =
     (case persist cfg (up_persist ev) (now_persist ev) st w of (u, w1) \<Rightarrow> (Inr u, w1))"

definition invoke :: "config \<Rightarrow> env \<Rightarrow> graph_state \<Rightarrow> world \<Rightarrow> (error + graph_state) \<times> world" where
  "invoke cfg ev inp w =
     then_node
       (then_node
         (then_node
           (then_node
             (then_node (start (uuid ev 0) inp w) (uuid ev 1) (hydrate_node cfg ev))
             (uuid ev 2) ingest_node)
           (uuid ev 3) (rag_node ev))
         (uuid ev 4) (summarize_node cfg ev))
       (uuid ev 5) (persist_node cfg ev)"

record ask_result =
  next_state :: graph_state
  ask_answer :: string
  ask_context :: "document list"

definition ask ::
  "config \<Rightarrow> env \<Rightarrow> graph_state \<Rightarrow> string \<Rightarrow> world \<Rightarrow> (error + ask_result) \<times> world" where
  "ask cfg ev state question w =
     (case invoke cfg ev (state\<lparr>input := question\<rparr>) w of
        (Inl e, w1) \<Rightarrow> (Inl e, w1)
      | (Inr nextState, w1) \<Rightarrow>
          (Inr \<lparr>next_state = nextState,
                ask_answer = (case answer nextState of None \<Rightarrow> [] | Some a \<Rightarrow> a),
                ask_context = (case rag_context nextState of None \<Rightarrow> [] | Some c \<Rightarrow> c)\<rparr>, w1))"

section \<open>Notions used in the statements\<close>



text \<open>
  A message of the conversation (system, human or assistant) that holds no reasoning
  markup: no segment in a string content, no \<open>think\<close> key in either metadata object.
\<close>

definition plain :: "message \<Rightarrow> bool" where
  "plain m =
     (mtype m \<noteq> RemoveMessage
      \<and> (case content m of JStr s \<Rightarrow> \<not> has_think s | _ \<Rightarrow> True)
      \<and> ''think'' \<notin> fst ` set (additional_kwargs m)
      \<and> ''think'' \<notin> fst ` set (response_metadata m))"

text \<open>The last \<open>n\<close> elements of a list.\<close>

definition last_n :: "nat \<Rightarrow> 'a list \<Rightarrow> 'a list" where
  "last_n n xs = drop (length xs - n) xs"

section \<open>Example inputs\<close>

text \<open>A configuration with a Redis url and a byte threshold, an empty world, a state of thread \<open>t1\<close>.\<close>

definition example_config :: "int \<Rightarrow> config" where
  "example_config maxBytes =
     Some \<lparr>url = Some ''redis://127.0.0.1:6379'', keyPrefix = None, ttlSeconds = None,
           maxValueBytes = Some (Finite maxBytes), summaryKeepLastN = None, summaryPrefix = None\<rparr>"

definition example_world :: world where
  "example_world = \<lparr>store = Map.empty, client = False, console = []\<rparr>"

definition example_state :: "message list \<Rightarrow> graph_state" where
  "example_state ms =
     \<lparr>messages = ms, threadId = Some ''t1'', input = [], answer = None, rag_context = None\<rparr>"

text \<open>The world after the history \<open>ms\<close> of thread \<open>t1\<close> was written at time \<open>now\<close>.\<close>

definition example_saved_world :: "int \<Rightarrow> message list \<Rightarrow> world" where
  "example_saved_world now ms =
     \<lparr>store = [''rag:mem:t1'' \<mapsto> (JsonText (buildRedisPayload now ms), None)],
      client = True, console = []\<rparr>"

text \<open>The world in which the key of thread \<open>t1\<close> holds a text that is not JSON.\<close>

definition example_broken_world :: world where
  "example_broken_world =
     \<lparr>store = [''rag:mem:t1'' \<mapsto> (OtherText ''{not json'', None)], client = True, console = []\<rparr>"


text \<open>A configuration that keeps one message, and a history of two exchanges.\<close>

definition example_summary_config :: config where
  "example_summary_config =
     Some \<lparr>url = Some ''redis://127.0.0.1:6379'', keyPrefix = None, ttlSeconds = None,
           maxValueBytes = Some (Finite 1), summaryKeepLastN = Some (Finite 1),
           summaryPrefix = Some ''Summary: ''\<rparr>"

definition example_history :: "message list" where
  "example_history =
     [new_message SystemMessage ''Answer from the context only.'',
      new_message HumanMessage ''q1'', new_message AIMessage ''a1'',
      new_message HumanMessage ''q2'', new_message AIMessage ''a2'']"

text \<open>An answer in the history, with the id that the reducer gave it.\<close>

definition example_assistant_message :: message where
  "example_assistant_message =
     (new_message AIMessage ''hi'')\<lparr>msg_id := Some ''0b1c2d3e-4f50-4a61-8b72-9c83a4d5e6f7''\<rparr>"

text \<open>The summary message that the middleware builds when the model answers.\<close>

definition example_summary :: "string \<Rightarrow> message list \<Rightarrow> message" where
  "example_summary prefix older =
     (new_message HumanMessage (prefix @ ''two questions on refunds''))\<lparr>msg_id := Some ''s1''\<rparr>"

text \<open>A turn in which the store and the summary model are down and the retrieval chain answers.\<close>

definition example_outage_env :: env where
  "example_outage_env =
     \<lparr>ragChain = (\<lambda>q. Inr \<lparr>res_answer = Some ''Refunds within 30 days.'', res_output = None,
                          res_context = Some [(''Refunds within 30 days.'', ''policy.md'')]\<rparr>),
      beforeModel = (\<lambda>keep prefix ms. Inl (ServiceError ''model unavailable'')),
      now_summarize = 1700000000000,
      now_persist = 1700000000001,
      up_hydrate = False,
      up_persist = False,
      uuid = (\<lambda>stage k. ''id-'' @ show_nat stage @ ''-'' @ show_nat k)\<rparr>"

text \<open>The definitions that the evaluation of a payload on a given history unfolds.\<close>

lemmas payload_eval =
  estimateRedisValueBytes_def Buffer_byteLength_def JSON_stringify_def buildRedisPayload_def
  mapMessagesForStorage_def mapChatMessagesToStoredMessages_def toDict_def storage_form_def
  set_prop_def stripThinkFromContent_def stripThinkFields_def new_message_def stored_json_def
  type_name_def show_int_def show_nat.simps digit_def quote_def quote_char_def is_open_def
  lower_def

section \<open>The pattern: auxiliary facts\<close>

lemma find_close_None_drop: "find_close s = None \<Longrightarrow> find_close (drop n s) = None"
proof (induction s arbitrary: n)
  case Nil
  then show ?case by simp
next
  case (Cons c cs)
  then show ?case by (cases n) (auto split: if_splits)
qed

text \<open>Without a closing tag nothing matches.\<close>

lemma replace_think_no_close: "find_close s = None \<Longrightarrow> replace_think s = s"
proof (induction s)
  case Nil
  then show ?case by simp
next
  case (Cons c cs)
  from Cons.prems have rest: "find_close cs = None" by (simp split: if_splits)
  from Cons.prems have "find_close (drop 7 (c # cs)) = None" by (rule find_close_None_drop)
  with Cons.IH [OF rest] show ?case by simp
qed

lemma is_open_decompose:
  assumes "is_open s"
  obtains a b c d e f g r where "s = a # b # c # d # e # f # g # r"
    and "lower a = CHR ''<''" "lower b = CHR ''t''" "lower c = CHR ''h''" "lower d = CHR ''i''"
    and "lower e = CHR ''n''" "lower f = CHR ''k''" "lower g = CHR ''>''"
proof -
  obtain a s1 where 1: "s = a # s1" using assms by (cases s) (auto simp: is_open_def)
  obtain b s2 where 2: "s1 = b # s2" using assms 1 by (cases s1) (auto simp: is_open_def)
  obtain c s3 where 3: "s2 = c # s3" using assms 1 2 by (cases s2) (auto simp: is_open_def)
  obtain d s4 where 4: "s3 = d # s4" using assms 1 2 3 by (cases s3) (auto simp: is_open_def)
  obtain e s5 where 5: "s4 = e # s5" using assms 1 2 3 4 by (cases s4) (auto simp: is_open_def)
  obtain f s6 where 6: "s5 = f # s6" using assms 1 2 3 4 5 by (cases s5) (auto simp: is_open_def)
  obtain g r where 7: "s6 = g # r" using assms 1 2 3 4 5 6 by (cases s6) (auto simp: is_open_def)
  from assms 1 2 3 4 5 6 7 that show thesis by (auto simp: is_open_def)
qed

text \<open>No closing tag starts inside an opening tag.\<close>

lemma open_find_close: "is_open s \<Longrightarrow> find_close s = find_close (drop 7 s)"
  by (erule is_open_decompose) (simp add: is_close_def)

lemma find_close_suffix: "find_close s = Some r \<Longrightarrow> \<exists>n. r = drop n s"
proof (induction s)
  case Nil
  then show ?case by simp
next
  case (Cons c cs)
  show ?case
  proof (cases "is_close (c # cs)")
    case True
    with Cons.prems have "r = drop 8 (c # cs)" by simp
    then show ?thesis by blast
  next
    case False
    with Cons.prems have "find_close cs = Some r" by simp
    with Cons.IH obtain n where "r = drop n cs" by blast
    then have "r = drop (Suc n) (c # cs)" by simp
    then show ?thesis by blast
  qed
qed

lemma skip_ws_suffix: "\<exists>n. skip_ws s = drop n s"
proof (induction s rule: skip_ws.induct)
  case (1 s)
  show ?case
  proof (cases "ws_width s = 0")
    case True
    then have "skip_ws s = drop 0 s" by (simp add: skip_ws.simps)
    then show ?thesis by blast
  next
    case False
    with 1 obtain n where "skip_ws (drop (ws_width s) s) = drop n (drop (ws_width s) s)" by blast
    with False have "skip_ws s = drop (n + ws_width s) s" by (subst skip_ws.simps) simp
    then show ?thesis by blast
  qed
qed

lemma no_unfinished_open_drop: "no_unfinished_open s \<Longrightarrow> no_unfinished_open (drop n s)"
proof (induction s arbitrary: n)
  case Nil
  then show ?case by simp
next
  case (Cons c cs)
  then show ?case by (cases n) auto
qed

text \<open>
  When the result of the replace starts with a text \<open>p\<close>, either the input starts with \<open>p\<close>,
  or the input starts with a part of \<open>p\<close> and an opening tag follows.
\<close>

lemma kept_prefix:
  "map lower (take (length p) (replace_think cs)) = p \<Longrightarrow>
   map lower (take (length p) cs) = p
   \<or> (\<exists>j < length p. map lower (take j cs) = take j p \<and> is_open (drop j cs))"
proof (induction p arbitrary: cs)
  case Nil
  then show ?case by simp
next
  case (Cons a p)
  show ?case
  proof (cases cs)
    case Nil
    with Cons.prems show ?thesis by simp
  next
    case (Cons d ds)
    show ?thesis
    proof (cases "is_open (d # ds)")
      case True
      with Cons have "map lower (take 0 cs) = take 0 (a # p) \<and> is_open (drop 0 cs)" by simp
      then show ?thesis by blast
    next
      case False
      with Cons Cons.prems have d: "lower d = a"
        and r: "map lower (take (length p) (replace_think ds)) = p"
        by simp_all
      from Cons.IH [OF r] show ?thesis
      proof
        assume "map lower (take (length p) ds) = p"
        with d Cons show ?thesis by simp
      next
        assume "\<exists>j < length p. map lower (take j ds) = take j p \<and> is_open (drop j ds)"
        then obtain j where j: "j < length p" "map lower (take j ds) = take j p" "is_open (drop j ds)"
          by blast
        with d Cons have "Suc j < length (a # p) \<and> map lower (take (Suc j) cs) = take (Suc j) (a # p)
                          \<and> is_open (drop (Suc j) cs)"
          by simp
        then show ?thesis by blast
      qed
    qed
  qed
qed

text \<open>The replace builds no opening tag at a place where none was, and none was unfinished.\<close>

lemma head_stays_closed:
  assumes "\<not> is_open (c # cs)" and "\<not> unfinished_open (c # cs)"
  shows "\<not> is_open (c # replace_think cs)"
proof
  assume o: "is_open (c # replace_think cs)"
  have len: "length ''think>'' = 6" by simp
  from o have c: "lower c = CHR ''<''"
    and t: "map lower (take 6 (replace_think cs)) = ''think>''"
    by (simp_all add: is_open_def)
  from kept_prefix [of "''think>''" cs, unfolded len, OF t] show False
  proof
    assume "map lower (take 6 cs) = ''think>''"
    with c have "is_open (c # cs)" by (simp add: is_open_def)
    with assms(1) show False by contradiction
  next
    assume "\<exists>j < 6. map lower (take j cs) = take j ''think>'' \<and> is_open (drop j cs)"
    then obtain j where j: "j < 6" "map lower (take j cs) = take j ''think>''" "is_open (drop j cs)"
      by auto
    with c have "map lower (take (Suc j) (c # cs)) = take (Suc j) ''<think>'' \<and> is_open (drop (Suc j) (c # cs))"
      by simp
    with j(1) have "unfinished_open (c # cs)"
      unfolding unfinished_open_def list_ex_iff by (intro bexI [of _ j]) simp_all
    with assms(2) show False by contradiction
  qed
qed

lemma replace_think_idem:
  "no_unfinished_open s \<Longrightarrow> replace_think (replace_think s) = replace_think s"
proof (induction s rule: replace_think.induct)
  case 1
  show ?case by simp
next
  case (2 c cs)
  from "2.prems" have tl_ok: "no_unfinished_open cs" and hd_ok: "\<not> unfinished_open (c # cs)"
    by simp_all
  show ?case
  proof (cases "is_open (c # cs)")
    case op: True
    show ?thesis
    proof (cases "find_close (drop 7 (c # cs))")
      case None
      with op have "find_close (c # cs) = None" by (simp only: open_find_close)
      then have "replace_think (c # cs) = c # cs" by (rule replace_think_no_close)
      then show ?thesis by simp
    next
      case (Some rest)
      obtain n where n: "rest = drop n (drop 7 (c # cs))" using find_close_suffix [OF Some] by blast
      obtain k where k: "skip_ws rest = drop k rest" using skip_ws_suffix by blast
      from "2.prems" have "no_unfinished_open (drop k (drop n (drop 7 (c # cs))))"
        by (intro no_unfinished_open_drop)
      then have "no_unfinished_open (skip_ws rest)"
        using k n by simp
      with "2.IH"(2) [OF op Some] op Some show ?thesis by simp
    qed
  next
    case nop: False
    from head_stays_closed [OF nop hd_ok] "2.IH"(3) [OF nop tl_ok] nop show ?thesis by simp
  qed
qed

section \<open>Sanitization: idempotence\<close>

text \<open>
  Claim C9, as stated: for every string content, removing the \<^verbatim>\<open><think>...</think>\<close>
  segments twice gives the same as removing them once. It fails: the removal of a segment
  can join the text on both sides of it into a new segment. In
  \<^verbatim>\<open><thi<think>x</think>nk>y</think>\<close> the first pass leaves \<^verbatim>\<open><think>y</think>\<close>, which the
  second pass removes.
\<close>

theorem strip_not_idempotent:
  "stripThinkFromContent (stripThinkFromContent (Some (JStr ''<thi<think>x</think>nk>y</think>'')))
     \<noteq> stripThinkFromContent (Some (JStr ''<thi<think>x</think>nk>y</think>''))"
proof -
  have 1: "replace_think ''<thi<think>x</think>nk>y</think>'' = ''<think>y</think>''"
    by code_simp
  have 2: "replace_think ''<think>y</think>'' = []"
    by code_simp
  have once: "stripThinkFromContent (Some (JStr ''<thi<think>x</think>nk>y</think>''))
                = Some (JStr ''<think>y</think>'')"
    by (simp only: stripThinkFromContent_def option.case jsval.case 1)
  have twice: "stripThinkFromContent (Some (JStr ''<think>y</think>'')) = Some (JStr [])"
    by (simp only: stripThinkFromContent_def option.case jsval.case 2)
  have ne: "Some (JStr []) \<noteq> Some (JStr ''<think>y</think>'')"
    by simp
  show ?thesis unfolding once twice by (rule ne)
qed

text \<open>
  Claim C9, amended: for every string content in which no opening tag directly follows an
  unfinished opening tag (a non-empty proper prefix of \<^verbatim>\<open><think>\<close>, the letters in either
  case), removing the segments twice gives the same as removing them once.
\<close>

theorem strip_idempotent_on_tagged_text:
  assumes "no_unfinished_open s"
  shows "stripThinkFromContent (stripThinkFromContent (Some (JStr s))) = stripThinkFromContent (Some (JStr s))"
  using replace_think_idem [OF assms] by (simp only: stripThinkFromContent_def option.case jsval.case)

theorem strip_idempotent_on_tagged_text_witness:
  "no_unfinished_open ''if a < b: <think>b</THINK> c</think>d <b>''
   \<and> stripThinkFromContent (stripThinkFromContent (Some (JStr ''if a < b: <think>b</THINK> c</think>d <b>'')))
       = stripThinkFromContent (Some (JStr ''if a < b: <think>b</THINK> c</think>d <b>''))"
proof -
  have h: "no_unfinished_open ''if a < b: <think>b</THINK> c</think>d <b>''"
    by code_simp
  from h strip_idempotent_on_tagged_text [OF h] show ?thesis by (rule conjI)
qed

section \<open>Key derivation\<close>

text \<open>
  Claim C7, as stated: distinct thread identifiers have distinct keys, and an unset
  identifier has the key of the prefix followed by \<open>default\<close>. The first part fails: the
  empty identifier is falsy and takes the sentinel, so it shares its key with the
  identifier \<open>default\<close>.
\<close>

theorem key_collision_empty_default:
  "Some [] \<noteq> Some ''default''
   \<and> redisKeyForThread None (Some []) = ''rag:mem:default''
   \<and> redisKeyForThread None (Some ''default'') = ''rag:mem:default''"
  by (simp add: redisKeyForThread_def key_prefix_def)

text \<open>
  Claim C7, amended: distinct non-empty thread identifiers have distinct keys; the key of
  an unset identifier, and of the empty one, is the configured prefix followed by
  \<open>default\<close>.
\<close>

theorem key_distinct_nonempty:
  "(t1 \<noteq> t2 \<and> t1 \<noteq> [] \<and> t2 \<noteq> [] \<longrightarrow>
      redisKeyForThread cfg (Some t1) \<noteq> redisKeyForThread cfg (Some t2))
   \<and> redisKeyForThread cfg None = key_prefix cfg @ ''default''
   \<and> redisKeyForThread cfg (Some []) = key_prefix cfg @ ''default''"
  by (simp add: redisKeyForThread_def)

theorem key_distinct_nonempty_witness:
  "''t1'' \<noteq> ''t2'' \<and> ''t1'' \<noteq> [] \<and> ''t2'' \<noteq> []
   \<and> redisKeyForThread None (Some ''t1'') \<noteq> redisKeyForThread None (Some ''t2'')
   \<and> redisKeyForThread None None = key_prefix None @ ''default''
   \<and> redisKeyForThread None (Some []) = key_prefix None @ ''default''"
  using key_distinct_nonempty [of "''t1''" "''t2''" None] by simp

section \<open>The summarize stage\<close>

lemma summarize_unset:
  "Option.bind cfg maxValueBytes = None \<Longrightarrow> summarize cfg before now st w = (no_update, w)"
  by (simp add: summarize_def number_or_def)

lemma summarize_not_finite:
  "Option.bind cfg maxValueBytes = Some n \<Longrightarrow> (\<forall>mx. n \<noteq> Finite mx) \<Longrightarrow>
   summarize cfg before now st w = (no_update, w)"
  by (cases n) (simp_all add: summarize_def number_or_def)

lemma summarize_below:
  "Option.bind cfg maxValueBytes = Some (Finite mx) \<Longrightarrow>
   mx \<le> 0 \<or> int (estimateRedisValueBytes now (messages st)) \<le> mx \<Longrightarrow>
   summarize cfg before now st w = (no_update, w)"
  by (auto simp add: summarize_def number_or_def)

lemma summarize_only_system:
  "\<forall>m \<in> set (messages st). mtype m = SystemMessage \<Longrightarrow>
   summarize cfg before now st w = (no_update, w)"
  by (simp add: summarize_def nonSystemMessages_def filter_empty_conv split: jsnumber.splits)

lemma apply_no_update: "apply_update no_update st = Inr st"
  by (simp add: apply_update_def no_update_def)

text \<open>
  Claim C3: the summarize stage changes nothing when the byte threshold is unset, is not a
  finite positive number, or is not exceeded by the estimated size, and when the history
  holds system messages only.
\<close>

theorem summarize_is_identity:
  assumes "Option.bind cfg maxValueBytes = None
           \<or> (\<exists>n. Option.bind cfg maxValueBytes = Some n
                  \<and> (\<forall>mx. n = Finite mx \<longrightarrow>
                        mx \<le> 0 \<or> int (estimateRedisValueBytes now (messages st)) \<le> mx))
           \<or> (\<forall>m \<in> set (messages st). mtype m = SystemMessage)"
  shows "summarize cfg before now st w = (no_update, w) \<and> apply_update no_update st = Inr st"
proof (rule conjI)
  show "summarize cfg before now st w = (no_update, w)"
    using assms
  proof (elim disjE exE conjE)
    assume "Option.bind cfg maxValueBytes = None"
    then show ?thesis by (rule summarize_unset)
  next
    fix n
    assume n: "Option.bind cfg maxValueBytes = Some n"
      and b: "\<forall>mx. n = Finite mx \<longrightarrow> mx \<le> 0 \<or> int (estimateRedisValueBytes now (messages st)) \<le> mx"
    show ?thesis
    proof (cases n)
      case (Finite mx)
      with b have "mx \<le> 0 \<or> int (estimateRedisValueBytes now (messages st)) \<le> mx" by simp
      with n Finite show ?thesis by (simp add: summarize_below)
    next
      case NaN
      with n show ?thesis by (simp add: summarize_not_finite)
    next
      case PosInfinity
      with n show ?thesis by (simp add: summarize_not_finite)
    next
      case NegInfinity
      with n show ?thesis by (simp add: summarize_not_finite)
    qed
  next
    assume "\<forall>m \<in> set (messages st). mtype m = SystemMessage"
    then show ?thesis by (rule summarize_only_system)
  qed
next
  show "apply_update no_update st = Inr st" by (rule apply_no_update)
qed

theorem summarize_is_identity_witness:
  "int (estimateRedisValueBytes 1700000000000 [example_assistant_message]) = 226
   \<and> summarize (example_config 1000) (\<lambda>keep prefix ms. Inr (Some [])) 1700000000000
        (example_state [example_assistant_message]) example_world = (no_update, example_world)
   \<and> apply_update no_update (example_state [example_assistant_message])
        = Inr (example_state [example_assistant_message])"
proof -
  have est: "int (estimateRedisValueBytes 1700000000000 [example_assistant_message]) = 226"
    by (simp add: payload_eval example_assistant_message_def)
  have cfg: "Option.bind (example_config 1000) maxValueBytes = Some (Finite 1000)"
    by (simp add: example_config_def)
  have msgs: "messages (example_state [example_assistant_message]) = [example_assistant_message]"
    by (simp add: example_state_def)
  have hyp: "Option.bind (example_config 1000) maxValueBytes = None
        \<or> (\<exists>n. Option.bind (example_config 1000) maxValueBytes = Some n
              \<and> (\<forall>mx. n = Finite mx \<longrightarrow> mx \<le> 0
                    \<or> int (estimateRedisValueBytes 1700000000000
                             (messages (example_state [example_assistant_message]))) \<le> mx))
        \<or> (\<forall>m \<in> set (messages (example_state [example_assistant_message])). mtype m = SystemMessage)"
    by (simp only: cfg msgs est) simp
  show ?thesis
    using summarize_is_identity [OF hyp] est by (intro conjI) simp_all
qed

text \<open>
  The size that the stage compares with the threshold counts the two empty lists of an
  assistant message: with the clock at 0, the payload of one answer \<open>hi\<close> without id has
  170 bytes.
\<close>

lemma estimate_assistant_message:
  "estimateRedisValueBytes 0 [new_message AIMessage ''hi''] = 170"
  by (simp add: payload_eval)

section \<open>The reducer and the stored form: auxiliary facts\<close>

lemma class_of_type_not_remove: "class_of_type t = Some c \<Longrightarrow> c \<noteq> RemoveMessage"
  by (auto simp: class_of_type_def split: if_splits)

lemma mapStoredMessage_not_remove:
  assumes "mapStoredMessageToChatMessage j = Inr m"
  shows "mtype m \<noteq> RemoveMessage"
proof -
  from assms obtain t where "class_of_type t = Some (mtype m)"
    by (auto simp: mapStoredMessageToChatMessage_def
             split: jsval.splits option.splits sum.splits prod.splits)
  then show ?thesis by (rule class_of_type_not_remove)
qed

lemma mapStoredMessages_not_remove:
  "mapStoredMessagesToChatMessages js = Inr ms \<Longrightarrow> \<forall>m \<in> set ms. mtype m \<noteq> RemoveMessage"
proof (induction js arbitrary: ms)
  case Nil
  then show ?case by simp
next
  case (Cons j js)
  from Cons.prems obtain m ms' where m: "mapStoredMessageToChatMessage j = Inr m"
    and rest: "mapStoredMessagesToChatMessages js = Inr ms'" and ms: "ms = m # ms'"
    by (auto split: sum.splits)
  from mapStoredMessage_not_remove [OF m] Cons.IH [OF rest] ms show ?case by simp
qed

text \<open>What is restored from the store holds no \<^verbatim>\<open>RemoveMessage\<close>.\<close>

lemma load_not_remove:
  assumes "loadMessagesFromRedis cfg up tid w = (Inr ms, w1)"
  shows "\<forall>m \<in> set ms. mtype m \<noteq> RemoveMessage"
proof -
  from assms have "ms = [] \<or> (\<exists>js. mapStoredMessagesToChatMessages js = Inr ms)"
    by (auto simp: loadMessagesFromRedis_def split: sum.splits option.splits if_splits)
  then show ?thesis using mapStoredMessages_not_remove by auto
qed

lemma after_remove_all_none:
  "\<forall>m \<in> set ms. mtype m \<noteq> RemoveMessage \<Longrightarrow> after_remove_all ms = None"
  by (induction ms) (auto simp: is_remove_all_def)

lemma after_remove_all_head:
  "\<forall>m \<in> set ms. mtype m \<noteq> RemoveMessage \<Longrightarrow> after_remove_all (remove_all # ms) = Some ms"
  by (simp add: after_remove_all_none is_remove_all_def remove_all_def)

text \<open>An update that starts with the remove-all marker replaces the history.\<close>

lemma reducer_remove_all:
  "\<forall>m \<in> set ms. mtype m \<noteq> RemoveMessage \<Longrightarrow>
   messagesStateReducer left (remove_all # ms) = Inr ms"
  by (simp only: messagesStateReducer_def after_remove_all_head option.case)

lemma apply_write_remove_all:
  "\<forall>m \<in> set ms. mtype m \<noteq> RemoveMessage \<Longrightarrow>
   apply_update (write_messages (remove_all # ms)) st = Inr (st\<lparr>messages := ms\<rparr>)"
  by (simp add: apply_update_def write_messages_def reducer_remove_all)

text \<open>Where no segment matches, the replace changes nothing.\<close>

lemma replace_think_no_segment: "\<not> has_think s \<Longrightarrow> replace_think s = s"
  by (induction s rule: replace_think.induct) (auto split: option.splits)

lemma class_of_type_name: "c \<noteq> RemoveMessage \<Longrightarrow> class_of_type (type_name c) = Some c"
  by (cases c) (simp_all add: class_of_type_def type_name_def)

lemma strip_content_plain:
  "(case c of JStr s \<Rightarrow> \<not> has_think s | _ \<Rightarrow> True) \<Longrightarrow> stripThinkFromContent (Some c) = Some c"
  by (cases c) (simp_all add: stripThinkFromContent_def replace_think_no_segment)

lemma strip_fields_plain:
  "''think'' \<notin> fst ` set kvs \<Longrightarrow> stripThinkFields (Some (JObj kvs)) = Some (JObj kvs)"
  by (simp add: stripThinkFields_def delete_id)

lemma storage_form_plain: "plain m \<Longrightarrow> storage_form (toDict m) = toDict m"
  by (cases "msg_id m"; cases "tool_calls m"; cases "invalid_tool_calls m")
     (simp_all add: storage_form_def toDict_def plain_def set_prop_def strip_content_plain strip_fields_plain)

lemma read_back_toDict:
  "mtype m \<noteq> RemoveMessage \<Longrightarrow> mapStoredMessageToChatMessage (stored_json (toDict m)) = Inr m"
  by (cases "msg_id m"; cases "tool_calls m"; cases "invalid_tool_calls m")
     (simp_all add: mapStoredMessageToChatMessage_def stored_json_def toDict_def class_of_type_name
                    metadata_of_def id_of_def calls_of_def)

lemma read_back_plain:
  "\<forall>m \<in> set ms. plain m \<Longrightarrow>
   mapStoredMessagesToChatMessages (map stored_json (mapMessagesForStorage ms)) = Inr ms"
proof (induction ms)
  case Nil
  then show ?case by (simp add: mapMessagesForStorage_def mapChatMessagesToStoredMessages_def)
next
  case (Cons m ms)
  from Cons.prems have p: "plain m" by simp
  then have nr: "mtype m \<noteq> RemoveMessage" by (simp add: plain_def)
  from Cons have rest: "mapStoredMessagesToChatMessages (map stored_json (mapMessagesForStorage ms)) = Inr ms"
    by simp
  have "mapStoredMessageToChatMessage (stored_json (storage_form (toDict m))) = Inr m"
    by (simp only: storage_form_plain [OF p] read_back_toDict [OF nr])
  with rest show ?case
    by (simp add: mapMessagesForStorage_def mapChatMessagesToStoredMessages_def)
qed

lemma getRedisClient_client: "getRedisClient cfg up w = Inr w1 \<Longrightarrow> client w1 \<and> store w1 = store w"
  by (auto simp: getRedisClient_def split: if_splits option.splits)

lemma getRedisClient_connected: "client w \<Longrightarrow> getRedisClient cfg up w = Inr w"
  by (simp add: getRedisClient_def)

text \<open>A save that succeeds leaves the serialized payload under the key of the thread.\<close>

lemma save_writes:
  assumes "saveMessagesToRedis cfg up now tid ms w = (Inr u, w1)"
  shows "client w1 \<and> (\<exists>ex. store w1 (redisKeyForThread cfg tid) = Some (JSON_stringify (buildRedisPayload now ms), ex))"
proof -
  from assms obtain w0 where c: "getRedisClient cfg up w = Inr w0"
    by (auto simp: saveMessagesToRedis_def split: sum.splits)
  then have "client w0" using getRedisClient_client by blast
  with assms c show ?thesis
    by (auto simp: saveMessagesToRedis_def redis_set_def Let_def split: sum.splits if_splits)
qed

lemma load_written:
  assumes "client w" and "store w (redisKeyForThread cfg tid) = Some (JsonText v, ex)"
  shows "loadMessagesFromRedis cfg True tid w = (mapStoredMessagesToChatMessages (stored_of v), w)"
  using assms
  by (simp add: loadMessagesFromRedis_def getRedisClient_connected redis_get_def JSON_parse_def)

lemma stored_of_payload:
  "stored_of (buildRedisPayload now ms) = map stored_json (mapMessagesForStorage ms)"
  by (simp add: stored_of_def buildRedisPayload_def)

lemma example_save:
  "saveMessagesToRedis (example_config 1000) True now (Some ''t1'') ms example_world
   = (Inr (), example_saved_world now ms)"
  by (simp add: saveMessagesToRedis_def getRedisClient_def example_config_def example_world_def
        example_saved_world_def redis_set_def redisKeyForThread_def key_prefix_def JSON_stringify_def
        number_or_def)

lemma example_load:
  assumes "\<forall>m \<in> set ms. plain m"
  shows "loadMessagesFromRedis (example_config 1000) True (Some ''t1'') (example_saved_world now ms)
         = (Inr ms, example_saved_world now ms)"
proof -
  have c: "client (example_saved_world now ms)" by (simp add: example_saved_world_def)
  have s: "store (example_saved_world now ms) (redisKeyForThread (example_config 1000) (Some ''t1''))
           = Some (JsonText (buildRedisPayload now ms), None)"
    by (simp add: example_saved_world_def redisKeyForThread_def key_prefix_def example_config_def)
  from load_written [OF c s] read_back_plain [OF assms] show ?thesis
    by (simp only: stored_of_payload)
qed

text \<open>The size of the payload depends on the clock through the number of its digits only.\<close>

lemma payload_length:
  "length (show_int t1) = length (show_int t2) \<Longrightarrow>
   length (json_text (buildRedisPayload t1 ms)) = length (json_text (buildRedisPayload t2 ms))"
  by (simp add: buildRedisPayload_def)

section \<open>The hydrate stage\<close>

text \<open>
  Claim C6: whatever history the caller supplied, when the store holds a non-empty
  history for the thread, the hydrate stage returns the remove-all marker followed by the
  restored messages, and the graph, writing this update, replaces the history by the
  restored messages in their order.
\<close>

theorem hydrate_replaces_history:
  assumes "loadMessagesFromRedis cfg up (Some (thread_of st)) w = (Inr restored, w1)"
    and "restored \<noteq> []"
  shows "hydrate cfg up st w = (write_messages (remove_all # restored), w1)
         \<and> apply_update (write_messages (remove_all # restored)) st = Inr (st\<lparr>messages := restored\<rparr>)"
proof (rule conjI)
  from assms show "hydrate cfg up st w = (write_messages (remove_all # restored), w1)"
    by (simp add: hydrate_def)
next
  from load_not_remove [OF assms(1)]
  show "apply_update (write_messages (remove_all # restored)) st = Inr (st\<lparr>messages := restored\<rparr>)"
    by (rule apply_write_remove_all)
qed

theorem hydrate_replaces_history_witness:
  "[new_message HumanMessage ''earlier question'', new_message AIMessage ''earlier answer''] \<noteq> []
   \<and> hydrate (example_config 1000) True (example_state [new_message HumanMessage ''held by the caller''])
        (example_saved_world 1700000000000
           [new_message HumanMessage ''earlier question'', new_message AIMessage ''earlier answer''])
      = (write_messages (remove_all # [new_message HumanMessage ''earlier question'',
                                        new_message AIMessage ''earlier answer'']),
         example_saved_world 1700000000000
           [new_message HumanMessage ''earlier question'', new_message AIMessage ''earlier answer''])
   \<and> apply_update (write_messages (remove_all # [new_message HumanMessage ''earlier question'',
                                                  new_message AIMessage ''earlier answer'']))
        (example_state [new_message HumanMessage ''held by the caller''])
      = Inr ((example_state [new_message HumanMessage ''held by the caller''])
               \<lparr>messages := [new_message HumanMessage ''earlier question'',
                             new_message AIMessage ''earlier answer'']\<rparr>)"
proof -
  have p: "\<forall>m \<in> set [new_message HumanMessage ''earlier question'', new_message AIMessage ''earlier answer'']. plain m"
    by (simp add: plain_def new_message_def is_open_def lower_def)
  have t: "thread_of (example_state [new_message HumanMessage ''held by the caller'']) = ''t1''"
    by (simp add: example_state_def thread_of_def)
  have ld: "loadMessagesFromRedis (example_config 1000) True
              (Some (thread_of (example_state [new_message HumanMessage ''held by the caller''])))
              (example_saved_world 1700000000000
                 [new_message HumanMessage ''earlier question'', new_message AIMessage ''earlier answer''])
            = (Inr [new_message HumanMessage ''earlier question'', new_message AIMessage ''earlier answer''],
               example_saved_world 1700000000000
                 [new_message HumanMessage ''earlier question'', new_message AIMessage ''earlier answer''])"
    unfolding t by (rule example_load [OF p])
  have ne: "[new_message HumanMessage ''earlier question'', new_message AIMessage ''earlier answer''] \<noteq> []"
    by simp
  from hydrate_replaces_history [OF ld ne] ne show ?thesis by (intro conjI) simp_all
qed

section \<open>Saving and loading\<close>

text \<open>
  Claim C4: for every sequence of conversation messages without reasoning markup in their
  contents and without \<open>think\<close> keys in their metadata, a save that succeeds followed by a
  load of the same thread gives the sequence back: the same length, the same types and
  contents in the same order (and the same metadata and ids).
\<close>

theorem save_load_roundtrip:
  assumes "\<forall>m \<in> set M. plain m"
    and "saveMessagesToRedis cfg up now tid M w = (Inr u, w1)"
  shows "loadMessagesFromRedis cfg True tid w1 = (Inr M, w1)"
proof -
  from save_writes [OF assms(2)] obtain ex where c: "client w1"
    and s: "store w1 (redisKeyForThread cfg tid) = Some (JsonText (buildRedisPayload now M), ex)"
    by (auto simp: JSON_stringify_def)
  from load_written [OF c s] read_back_plain [OF assms(1)] show ?thesis
    by (simp only: stored_of_payload)
qed

theorem save_load_roundtrip_witness:
  "plain (new_message HumanMessage ''What is the refund policy?'')
   \<and> plain (new_message AIMessage ''Refunds within 30 days.'')
   \<and> fst (saveMessagesToRedis (example_config 1000) True 1700000000000 (Some ''t1'')
            [new_message HumanMessage ''What is the refund policy?'',
             new_message AIMessage ''Refunds within 30 days.''] example_world) = Inr ()
   \<and> fst (loadMessagesFromRedis (example_config 1000) True (Some ''t1'')
            (snd (saveMessagesToRedis (example_config 1000) True 1700000000000 (Some ''t1'')
                   [new_message HumanMessage ''What is the refund policy?'',
                    new_message AIMessage ''Refunds within 30 days.''] example_world)))
       = Inr [new_message HumanMessage ''What is the refund policy?'',
              new_message AIMessage ''Refunds within 30 days.'']"
proof -
  have p1: "plain (new_message HumanMessage ''What is the refund policy?'')"
    by (simp add: plain_def new_message_def is_open_def lower_def)
  have p2: "plain (new_message AIMessage ''Refunds within 30 days.'')"
    by (simp add: plain_def new_message_def is_open_def lower_def)
  from p1 p2 have all: "\<forall>m \<in> set [new_message HumanMessage ''What is the refund policy?'',
                                   new_message AIMessage ''Refunds within 30 days.'']. plain m"
    by simp
  note sv = example_save [of 1700000000000 "[new_message HumanMessage ''What is the refund policy?'',
                                  new_message AIMessage ''Refunds within 30 days.'']"]
  from save_load_roundtrip [OF all sv] p1 p2 show ?thesis
    by (simp only: sv fst_conv snd_conv simp_thms)
qed

section \<open>The size estimate\<close>

text \<open>
  Claim C8: the estimator serializes the payload that the save builds for the same
  messages, so its result is the byte length of the value that the save writes. Each of
  the two reads the clock for \<open>updatedAt\<close>; the two readings have the same number of
  digits (thirteen, from 2001 to 2286).
\<close>

theorem estimate_is_written_size:
  assumes "saveMessagesToRedis cfg up t_save tid ms w = (Inr u, w1)"
    and "length (show_int t_estimate) = length (show_int t_save)"
  shows "map_option (\<lambda>(v, ex). Buffer_byteLength v) (store w1 (redisKeyForThread cfg tid))
         = Some (estimateRedisValueBytes t_estimate ms)"
proof -
  from save_writes [OF assms(1)] obtain ex
    where s: "store w1 (redisKeyForThread cfg tid) = Some (JSON_stringify (buildRedisPayload t_save ms), ex)"
    by auto
  have "Buffer_byteLength (JSON_stringify (buildRedisPayload t_save ms)) = estimateRedisValueBytes t_estimate ms"
    using payload_length [OF assms(2), of ms]
    by (simp add: estimateRedisValueBytes_def Buffer_byteLength_def JSON_stringify_def)
  with s show ?thesis by simp
qed

theorem estimate_is_written_size_witness:
  "length (show_int 1700000000000) = length (show_int 1700000004321)
   \<and> fst (saveMessagesToRedis (example_config 1000) True 1700000004321 (Some ''t1'')
            [new_message HumanMessage ''hi''] example_world) = Inr ()
   \<and> map_option (\<lambda>(v, ex). Buffer_byteLength v)
        (store (snd (saveMessagesToRedis (example_config 1000) True 1700000004321 (Some ''t1'')
                       [new_message HumanMessage ''hi''] example_world))
           (redisKeyForThread (example_config 1000) (Some ''t1'')))
      = Some (estimateRedisValueBytes 1700000000000 [new_message HumanMessage ''hi''])
   \<and> estimateRedisValueBytes 1700000000000 [new_message HumanMessage ''hi''] = 145"
proof -
  have d: "length (show_int 1700000000000) = length (show_int 1700000004321)"
    by (simp add: show_int_def show_nat.simps)
  note sv = example_save [of 1700000004321 "[new_message HumanMessage ''hi'']"]
  have n: "estimateRedisValueBytes 1700000000000 [new_message HumanMessage ''hi''] = 145"
    by (simp add: payload_eval)
  from estimate_is_written_size [OF sv d] d n show ?thesis
    by (simp only: sv fst_conv snd_conv simp_thms)
qed

section \<open>Loading a missing or malformed value\<close>

text \<open>
  Claim C5, as stated: a load on a missing key or on a malformed payload returns the empty
  list and never lets a parse error reach its caller. It fails on a value that is not
  JSON: \<^verbatim>\<open>JSON.parse\<close> throws inside \<open>loadMessagesFromRedis\<close>, which has no handler, and the
  error reaches the caller, the hydrate node.
\<close>

theorem load_raises_parse_error:
  "fst (loadMessagesFromRedis (example_config 1000) True (Some ''t1'') example_broken_world)
   = Inl SyntaxError"
  by (simp add: loadMessagesFromRedis_def getRedisClient_def example_broken_world_def redis_get_def
        redisKeyForThread_def key_prefix_def example_config_def JSON_parse_def)

text \<open>
  Claim C5, amended: with the store reachable, a load on a missing key, on an empty value,
  or on a parsed payload whose \<open>messages\<close> field is not an array (or is an empty one)
  returns the empty list; on a value that is not JSON the load raises the parse error to
  its caller, the hydrate stage, which catches it, logs a warning and writes nothing.
\<close>

theorem load_missing_or_malformed:
  assumes "getRedisClient cfg up w = Inr w1"
    and "redis_get up w1 (redisKeyForThread cfg tid) = Inr raw"
  shows "(raw = None \<or> raw = Some (OtherText []) \<longrightarrow>
            loadMessagesFromRedis cfg up tid w = (Inr [], w1))
       \<and> (\<forall>v. raw = Some (JsonText v) \<and> stored_of v = [] \<longrightarrow>
            loadMessagesFromRedis cfg up tid w = (Inr [], w1))
       \<and> (\<forall>s. raw = Some (OtherText s) \<and> s \<noteq> [] \<longrightarrow>
            loadMessagesFromRedis cfg up tid w = (Inl SyntaxError, w1)
            \<and> (\<forall>st. tid = Some (thread_of st) \<longrightarrow>
                  hydrate cfg up st w = (no_update, warn (HydrateFailed SyntaxError) w1)))"
  using assms
  by (auto simp: loadMessagesFromRedis_def hydrate_def JSON_parse_def)

theorem load_missing_or_malformed_witness:
  "getRedisClient (example_config 1000) True example_broken_world = Inr example_broken_world
   \<and> redis_get True example_broken_world (redisKeyForThread (example_config 1000) (Some ''t1''))
      = Inr (Some (OtherText ''{not json''))
   \<and> ''{not json'' \<noteq> []
   \<and> Some ''t1'' = Some (thread_of (example_state []))
   \<and> loadMessagesFromRedis (example_config 1000) True (Some ''t1'') example_broken_world
      = (Inl SyntaxError, example_broken_world)
   \<and> hydrate (example_config 1000) True (example_state []) example_broken_world
      = (no_update, warn (HydrateFailed SyntaxError) example_broken_world)"
proof -
  have c: "getRedisClient (example_config 1000) True example_broken_world = Inr example_broken_world"
    by (simp add: getRedisClient_def example_broken_world_def)
  have g: "redis_get True example_broken_world (redisKeyForThread (example_config 1000) (Some ''t1''))
           = Inr (Some (OtherText ''{not json''))"
    by (simp add: redis_get_def example_broken_world_def redisKeyForThread_def key_prefix_def
          example_config_def)
  have t: "Some ''t1'' = Some (thread_of (example_state []))"
    by (simp add: thread_of_def example_state_def)
  from load_missing_or_malformed [OF c g] c g t show ?thesis by simp
qed

section \<open>Sanitization: the frame\<close>









section \<open>The summarize stage above the threshold\<close>

lemma estimate_above_one: "1 < int (estimateRedisValueBytes now ms)"
  by (simp add: estimateRedisValueBytes_def Buffer_byteLength_def JSON_stringify_def
        buildRedisPayload_def quote_def)

lemma systemMessages_not_remove: "\<forall>m \<in> set (systemMessages ms). mtype m \<noteq> RemoveMessage"
  by (simp add: systemMessages_def)

lemma summarize_above:
  assumes "Option.bind cfg maxValueBytes = Some (Finite mx)" and "0 < mx"
    and "mx < int (estimateRedisValueBytes now (messages st))"
    and "nonSystemMessages (messages st) \<noteq> []"
  shows "summarize cfg before now st w =
     (case before (keepLastN cfg) (summary_prefix cfg) (nonSystemMessages (messages st)) of
        Inl e \<Rightarrow> (no_update, warn (SummarizeFailed e) w)
      | Inr None \<Rightarrow> (no_update, w)
      | Inr (Some res) \<Rightarrow>
          if filter (\<lambda>m. mtype m \<noteq> RemoveMessage) res = [] then (no_update, w)
          else (write_messages (remove_all # systemMessages (messages st)
                                @ filter (\<lambda>m. mtype m \<noteq> RemoveMessage) res), w))"
  using assms by (simp add: summarize_def number_or_def Let_def split: sum.splits option.splits)

lemma nonSystem_drop_not_remove:
  "\<forall>m \<in> set (drop c (nonSystemMessages ms)). mtype m \<noteq> RemoveMessage"
proof
  fix m
  assume "m \<in> set (drop c (nonSystemMessages ms))"
  then have "m \<in> set (nonSystemMessages ms)" by (rule in_set_dropD)
  then show "mtype m \<noteq> RemoveMessage" by (simp add: nonSystemMessages_def)
qed

lemma nonSystem_no_remove:
  "filter (\<lambda>m. mtype m \<noteq> RemoveMessage) (drop c (nonSystemMessages ms)) = drop c (nonSystemMessages ms)"
  using nonSystem_drop_not_remove [of c ms] by (simp only: filter_id_conv)

lemma middleware_short:
  "length ms \<le> nat k \<Longrightarrow> summarizationMiddleware summary (Finite k) prefix ms = Inr None"
  by (simp add: summarizationMiddleware_def)

lemma middleware_long:
  "nat k < length ms \<Longrightarrow>
   summarizationMiddleware summary (Finite k) prefix ms
   = Inr (Some (remove_all # (summary prefix (take (length ms - nat k) ms))\<lparr>mtype := HumanMessage\<rparr>
                # last_n (nat k) ms))"
  by (simp add: summarizationMiddleware_def last_n_def Let_def)

lemma summarize_long:
  assumes "Option.bind cfg maxValueBytes = Some (Finite mx)" and "0 < mx"
    and "mx < int (estimateRedisValueBytes now (messages st))"
    and "keepLastN cfg = Finite k"
    and n: "nat k < length (nonSystemMessages (messages st))"
  shows "summarize cfg (summarizationMiddleware summary) now st w
         = (write_messages
              (remove_all # systemMessages (messages st)
               @ (summary (summary_prefix cfg)
                    (take (length (nonSystemMessages (messages st)) - nat k)
                       (nonSystemMessages (messages st))))\<lparr>mtype := HumanMessage\<rparr>
               # last_n (nat k) (nonSystemMessages (messages st))), w)"
proof -
  let ?ns = "nonSystemMessages (messages st)"
  let ?s = "(summary (summary_prefix cfg) (take (length ?ns - nat k) ?ns))\<lparr>mtype := HumanMessage\<rparr>"
  from n have ne: "?ns \<noteq> []" by auto
  have f: "filter (\<lambda>m. mtype m \<noteq> RemoveMessage) (remove_all # ?s # last_n (nat k) ?ns)
           = ?s # last_n (nat k) ?ns"
    by (simp add: last_n_def nonSystem_no_remove remove_all_def)
  show ?thesis
    apply (subst summarize_above [OF assms(1-3) ne])
    apply (subst assms(4))
    apply (subst middleware_long [OF n])
    apply (simp only: sum.case option.case f list.distinct if_False)
    done
qed

lemma summarize_short:
  assumes "Option.bind cfg maxValueBytes = Some (Finite mx)" and "0 < mx"
    and "mx < int (estimateRedisValueBytes now (messages st))"
    and "keepLastN cfg = Finite k"
    and n: "length (nonSystemMessages (messages st)) \<le> nat k"
  shows "summarize cfg (summarizationMiddleware summary) now st w = (no_update, w)"
proof (cases "nonSystemMessages (messages st) = []")
  case True
  then show ?thesis using assms(1) by (simp add: summarize_def number_or_def)
next
  case False
  show ?thesis
    apply (subst summarize_above [OF assms(1-3) False])
    apply (subst assms(4))
    apply (subst middleware_short [OF n])
    apply (simp only: sum.case option.case)
    done
qed

lemma kept_not_remove:
  "\<forall>m \<in> set (systemMessages ms @ s\<lparr>mtype := HumanMessage\<rparr> # last_n k (nonSystemMessages ms)).
     mtype m \<noteq> RemoveMessage"
proof -
  have "\<forall>m \<in> set (last_n k (nonSystemMessages ms)). mtype m \<noteq> RemoveMessage"
    unfolding last_n_def by (rule nonSystem_drop_not_remove)
  then show ?thesis using systemMessages_not_remove [of ms] by auto
qed

text \<open>
  Claim C2, as stated: above a positive threshold and with a non-system message in the
  history, the summarize stage returns the system messages, one summary message and the
  last \<open>min(keepLastN, n)\<close> of the \<open>n\<close> non-system messages. It fails when the history has
  no more than \<open>keepLastN\<close> non-system messages: the middleware finds nothing before its
  cut, resolves without messages, and the node returns \<^verbatim>\<open>{}\<close>. With the threshold 1, the
  default \<open>keepLastN\<close> of 6 and the history of one human message, the history keeps its
  length 1, where the claim has \<open>0 + 1 + min 6 1 = 2\<close> messages.
\<close>

theorem summarize_short_history_unchanged:
  "1 < int (estimateRedisValueBytes 1700000000000 [new_message HumanMessage ''hi''])
   \<and> nonSystemMessages [new_message HumanMessage ''hi''] \<noteq> []
   \<and> keepLastN (example_config 1) = Finite 6
   \<and> summarize (example_config 1) (summarizationMiddleware example_summary)
        1700000000000 (example_state [new_message HumanMessage ''hi'']) example_world
      = (no_update, example_world)
   \<and> apply_update no_update (example_state [new_message HumanMessage ''hi''])
       = Inr (example_state [new_message HumanMessage ''hi''])
   \<and> length (messages (example_state [new_message HumanMessage ''hi'']))
       \<noteq> length (systemMessages [new_message HumanMessage ''hi'']) + 1
          + min 6 (length (nonSystemMessages [new_message HumanMessage ''hi'']))"
proof -
  let ?st = "example_state [new_message HumanMessage ''hi'']"
  have ns: "nonSystemMessages [new_message HumanMessage ''hi''] = [new_message HumanMessage ''hi'']"
    by (simp add: nonSystemMessages_def new_message_def)
  have sy: "systemMessages [new_message HumanMessage ''hi''] = []"
    by (simp add: systemMessages_def new_message_def)
  have ms: "messages ?st = [new_message HumanMessage ''hi'']"
    by (simp add: example_state_def)
  have cfg: "Option.bind (example_config 1) maxValueBytes = Some (Finite 1)"
    by (simp add: example_config_def)
  have k: "keepLastN (example_config 1) = Finite 6"
    by (simp add: keepLastN_def max0_def number_or_def example_config_def)
  have e: "1 < int (estimateRedisValueBytes 1700000000000 [new_message HumanMessage ''hi''])"
    by (rule estimate_above_one)
  have e': "1 < int (estimateRedisValueBytes 1700000000000 (messages ?st))"
    by (rule estimate_above_one)
  have n': "length (nonSystemMessages (messages ?st)) \<le> nat 6"
    by (simp add: ms ns)
  have f: "summarize (example_config 1) (summarizationMiddleware example_summary)
             1700000000000 ?st example_world = (no_update, example_world)"
    by (rule summarize_short [OF cfg zero_less_one e' k n'])
  have n: "nonSystemMessages [new_message HumanMessage ''hi''] \<noteq> []"
    by (simp add: ns)
  have l: "length (messages ?st)
       \<noteq> length (systemMessages [new_message HumanMessage ''hi'']) + 1
          + min 6 (length (nonSystemMessages [new_message HumanMessage ''hi'']))"
    by (simp add: ns sy ms)
  have a: "apply_update no_update ?st = Inr ?st"
    by (rule apply_no_update)
  from e n k f a l show ?thesis by (intro conjI)
qed

text \<open>
  Claim C2, amended: for every history whose estimated size exceeds the positive
  threshold, with \<open>keepLastN\<close> a finite number \<open>k\<close> and \<open>n\<close> non-system messages: when
  \<open>k < n\<close>, the stage replaces the history by the system messages in their order, then one
  summary message, which the middleware builds from the prefix and the first \<open>n - k\<close>
  non-system messages, then the last \<open>k\<close> non-system messages in their order, so by
  \<open>s + 1 + min(k, n)\<close> messages for \<open>s\<close> system messages; when \<open>n \<le> k\<close>, the stage writes
  nothing and logs nothing, and the history stays as it was.
\<close>

theorem summarize_result_shape:
  assumes "Option.bind cfg maxValueBytes = Some (Finite mx)" and "0 < mx"
    and "mx < int (estimateRedisValueBytes now (messages st))"
    and "keepLastN cfg = Finite k"
  shows "(nat k < length (nonSystemMessages (messages st)) \<longrightarrow>
            summarize cfg (summarizationMiddleware summary) now st w
              = (write_messages
                   (remove_all # systemMessages (messages st)
                    @ (summary (summary_prefix cfg)
                         (take (length (nonSystemMessages (messages st)) - nat k)
                            (nonSystemMessages (messages st))))\<lparr>mtype := HumanMessage\<rparr>
                    # last_n (nat k) (nonSystemMessages (messages st))), w)
            \<and> apply_update (fst (summarize cfg (summarizationMiddleware summary) now st w)) st
                = Inr (st\<lparr>messages :=
                          systemMessages (messages st)
                          @ (summary (summary_prefix cfg)
                               (take (length (nonSystemMessages (messages st)) - nat k)
                                  (nonSystemMessages (messages st))))\<lparr>mtype := HumanMessage\<rparr>
                          # last_n (nat k) (nonSystemMessages (messages st))\<rparr>)
            \<and> length (systemMessages (messages st)
                       @ (summary (summary_prefix cfg)
                            (take (length (nonSystemMessages (messages st)) - nat k)
                               (nonSystemMessages (messages st))))\<lparr>mtype := HumanMessage\<rparr>
                       # last_n (nat k) (nonSystemMessages (messages st)))
                = length (systemMessages (messages st)) + 1
                  + min (nat k) (length (nonSystemMessages (messages st))))
       \<and> (length (nonSystemMessages (messages st)) \<le> nat k \<longrightarrow>
            summarize cfg (summarizationMiddleware summary) now st w = (no_update, w)
            \<and> apply_update (fst (summarize cfg (summarizationMiddleware summary) now st w)) st = Inr st)"
proof (rule conjI; rule impI)
  let ?ns = "nonSystemMessages (messages st)"
  let ?sy = "systemMessages (messages st)"
  let ?s = "(summary (summary_prefix cfg) (take (length ?ns - nat k) ?ns))\<lparr>mtype := HumanMessage\<rparr>"
  assume n: "nat k < length ?ns"
  have s: "summarize cfg (summarizationMiddleware summary) now st w
           = (write_messages (remove_all # ?sy @ ?s # last_n (nat k) ?ns), w)"
    by (rule summarize_long [OF assms n])
  have a: "apply_update (fst (summarize cfg (summarizationMiddleware summary) now st w)) st
           = Inr (st\<lparr>messages := ?sy @ ?s # last_n (nat k) ?ns\<rparr>)"
    by (simp only: s fst_conv apply_write_remove_all [OF kept_not_remove])
  have l: "length (?sy @ ?s # last_n (nat k) ?ns) = length ?sy + 1 + min (nat k) (length ?ns)"
    using n by (simp add: last_n_def)
  from s a l show "summarize cfg (summarizationMiddleware summary) now st w
           = (write_messages (remove_all # ?sy @ ?s # last_n (nat k) ?ns), w)
        \<and> apply_update (fst (summarize cfg (summarizationMiddleware summary) now st w)) st
           = Inr (st\<lparr>messages := ?sy @ ?s # last_n (nat k) ?ns\<rparr>)
        \<and> length (?sy @ ?s # last_n (nat k) ?ns) = length ?sy + 1 + min (nat k) (length ?ns)"
    by (intro conjI)
next
  assume n: "length (nonSystemMessages (messages st)) \<le> nat k"
  have "summarize cfg (summarizationMiddleware summary) now st w = (no_update, w)"
    by (rule summarize_short [OF assms n])
  then show "summarize cfg (summarizationMiddleware summary) now st w = (no_update, w)
        \<and> apply_update (fst (summarize cfg (summarizationMiddleware summary) now st w)) st = Inr st"
    by (simp add: apply_no_update)
qed

theorem summarize_result_shape_witness:
  "1 < int (estimateRedisValueBytes 1700000000000 (messages (example_state example_history)))
   \<and> keepLastN example_summary_config = Finite 1
   \<and> nat 1 < length (nonSystemMessages (messages (example_state example_history)))
   \<and> summarize example_summary_config (summarizationMiddleware example_summary) 1700000000000
        (example_state example_history) example_world
      = (write_messages
           [remove_all,
            new_message SystemMessage ''Answer from the context only.'',
            (new_message HumanMessage ''Summary: two questions on refunds'')\<lparr>msg_id := Some ''s1''\<rparr>,
            new_message AIMessage ''a2''],
         example_world)
   \<and> apply_update
        (fst (summarize example_summary_config (summarizationMiddleware example_summary) 1700000000000
                (example_state example_history) example_world))
        (example_state example_history)
      = Inr ((example_state example_history)
               \<lparr>messages := [new_message SystemMessage ''Answer from the context only.'',
                             (new_message HumanMessage ''Summary: two questions on refunds'')
                               \<lparr>msg_id := Some ''s1''\<rparr>,
                             new_message AIMessage ''a2'']\<rparr>)
   \<and> 1 < int (estimateRedisValueBytes 1700000000000
                (messages (example_state [new_message HumanMessage ''hi''])))
   \<and> keepLastN (example_config 1) = Finite 6
   \<and> length (nonSystemMessages (messages (example_state [new_message HumanMessage ''hi'']))) \<le> nat 6
   \<and> summarize (example_config 1) (summarizationMiddleware example_summary) 1700000000000
        (example_state [new_message HumanMessage ''hi'']) example_world
      = (no_update, example_world)"
proof -
  let ?st = "example_state example_history"
  let ?hi = "example_state [new_message HumanMessage ''hi'']"
  let ?ns = "[new_message HumanMessage ''q1'', new_message AIMessage ''a1'',
              new_message HumanMessage ''q2'', new_message AIMessage ''a2'']"
  let ?summary = "(new_message HumanMessage ''Summary: two questions on refunds'')\<lparr>msg_id := Some ''s1''\<rparr>"
  have cfg: "Option.bind example_summary_config maxValueBytes = Some (Finite 1)"
    by (simp add: example_summary_config_def)
  have e: "1 < int (estimateRedisValueBytes 1700000000000 (messages ?st))"
    by (rule estimate_above_one)
  have ns: "nonSystemMessages (messages ?st) = ?ns"
    by (simp add: nonSystemMessages_def example_state_def example_history_def new_message_def)
  have sy: "systemMessages (messages ?st) = [new_message SystemMessage ''Answer from the context only.'']"
    by (simp add: systemMessages_def example_state_def example_history_def new_message_def)
  have k: "keepLastN example_summary_config = Finite 1"
    by (simp add: keepLastN_def max0_def number_or_def example_summary_config_def)
  have n: "nat 1 < length (nonSystemMessages (messages ?st))"
    by (simp add: ns)
  have ln: "last_n (nat 1) ?ns = [new_message AIMessage ''a2'']"
    by (simp add: last_n_def)
  have sm: "\<And>older. (example_summary (summary_prefix example_summary_config) older)\<lparr>mtype := HumanMessage\<rparr>
            = ?summary"
    by (simp add: example_summary_def summary_prefix_def example_summary_config_def new_message_def)
  note t = summarize_result_shape [OF cfg zero_less_one e k, of example_summary example_world,
         THEN conjunct1, rule_format, OF n]
  have s: "summarize example_summary_config (summarizationMiddleware example_summary) 1700000000000
             ?st example_world
           = (write_messages
                [remove_all, new_message SystemMessage ''Answer from the context only.'',
                 ?summary, new_message AIMessage ''a2''], example_world)"
    using t [THEN conjunct1] by (simp only: ns sy sm ln append_Cons append_Nil)
  have a: "apply_update
              (fst (summarize example_summary_config (summarizationMiddleware example_summary)
                      1700000000000 ?st example_world)) ?st
            = Inr (?st\<lparr>messages := [new_message SystemMessage ''Answer from the context only.'',
                                     ?summary, new_message AIMessage ''a2'']\<rparr>)"
    using t [THEN conjunct2, THEN conjunct1] by (simp only: ns sy sm ln append_Cons append_Nil)
  have cfg1: "Option.bind (example_config 1) maxValueBytes = Some (Finite 1)"
    by (simp add: example_config_def)
  have e1: "1 < int (estimateRedisValueBytes 1700000000000 (messages ?hi))"
    by (rule estimate_above_one)
  have k1: "keepLastN (example_config 1) = Finite 6"
    by (simp add: keepLastN_def max0_def number_or_def example_config_def)
  have n1: "length (nonSystemMessages (messages ?hi)) \<le> nat 6"
    by (simp add: nonSystemMessages_def example_state_def)
  from summarize_result_shape [OF cfg1 zero_less_one e1 k1, of example_summary example_world,
         THEN conjunct2, rule_format, OF n1]
  have h: "summarize (example_config 1) (summarizationMiddleware example_summary) 1700000000000
             ?hi example_world = (no_update, example_world)"
    by (rule conjunct1)
  from e k n s a e1 k1 n1 h show ?thesis by (intro conjI)
qed

section \<open>One turn: which failures end it\<close>

lemma filter_none_removed:
  "filter (\<lambda>m. case msg_id m of None \<Rightarrow> True | Some i \<Rightarrow> i \<notin> set []) ms = ms"
  by (induction ms) (simp_all split: option.splits)

lemma reducer_single:
  "mtype m \<noteq> RemoveMessage \<Longrightarrow> \<exists>ms. messagesStateReducer left [m] = Inr ms"
  by (simp add: messagesStateReducer_def is_remove_all_def split: option.splits)

lemma stamp_not_remove:
  "\<forall>m \<in> set ms. mtype m \<noteq> RemoveMessage \<Longrightarrow> \<forall>m \<in> set (stamp ids n ms). mtype m \<noteq> RemoveMessage"
  by (induction ms arbitrary: n) (auto split: option.splits)

lemma stamp_remove_all: "stamp ids n (remove_all # ms) = remove_all # stamp ids n ms"
  by (simp add: remove_all_def)

lemma stamped_no_update: "stamped ids no_update = no_update"
  by (simp add: stamped_def no_update_def)

lemma stamped_write: "stamped ids (write_messages ms) = write_messages (stamp ids 0 ms)"
  by (simp add: stamped_def write_messages_def)

lemma write_remove_all_stamped:
  assumes "\<forall>m \<in> set ms. mtype m \<noteq> RemoveMessage"
  shows "apply_update (stamped ids (write_messages (remove_all # ms))) st
         = Inr (st\<lparr>messages := stamp ids 0 ms\<rparr>)"
  by (simp only: stamped_write stamp_remove_all apply_write_remove_all [OF stamp_not_remove [OF assms]])

lemma then_node_error: "then_node (Inl e, w) ids node = (Inl e, w)"
  by (simp add: then_node_def)

lemma apply_no_update_messages:
  "apply_update (stamped ids no_update) st = Inr (st\<lparr>messages := messages st\<rparr>)"
  by (simp add: apply_no_update stamped_no_update)

lemma hydrate_applies:
  "\<exists>ms. apply_update (stamped ids (fst (hydrate cfg up st w))) st = Inr (st\<lparr>messages := ms\<rparr>)"
proof (cases "loadMessagesFromRedis cfg up (Some (thread_of st)) w")
  case (Pair r w1)
  show ?thesis
  proof (cases r)
    case (Inl e)
    with Pair have "fst (hydrate cfg up st w) = no_update" by (simp add: hydrate_def)
    then show ?thesis using apply_no_update_messages by metis
  next
    case (Inr restored)
    show ?thesis
    proof (cases "restored = []")
      case True
      with Pair Inr have "fst (hydrate cfg up st w) = no_update" by (simp add: hydrate_def)
      then show ?thesis using apply_no_update_messages by metis
    next
      case False
      with Pair Inr have u: "fst (hydrate cfg up st w) = write_messages (remove_all # restored)"
        by (simp add: hydrate_def)
      from Pair Inr have "\<forall>m \<in> set restored. mtype m \<noteq> RemoveMessage"
        using load_not_remove by blast
      from write_remove_all_stamped [OF this, of ids st] u show ?thesis by metis
    qed
  qed
qed

lemma summarize_cases:
  "fst (summarize cfg before now st w) = no_update
   \<or> (\<exists>res. fst (summarize cfg before now st w)
              = write_messages (remove_all # systemMessages (messages st)
                                @ filter (\<lambda>m. mtype m \<noteq> RemoveMessage) res))"
  by (auto simp: summarize_def Let_def split: jsnumber.splits sum.splits option.splits)

lemma summarize_applies:
  "\<exists>ms. apply_update (stamped ids (fst (summarize cfg before now st w))) st
          = Inr (st\<lparr>messages := ms\<rparr>)"
proof -
  from summarize_cases [of cfg before now st w] show ?thesis
  proof (elim disjE exE)
    assume "fst (summarize cfg before now st w) = no_update"
    then show ?thesis using apply_no_update_messages by metis
  next
    fix res
    assume u: "fst (summarize cfg before now st w)
                 = write_messages (remove_all # systemMessages (messages st)
                                   @ filter (\<lambda>m. mtype m \<noteq> RemoveMessage) res)"
    have "\<forall>m \<in> set (systemMessages (messages st) @ filter (\<lambda>m. mtype m \<noteq> RemoveMessage) res).
            mtype m \<noteq> RemoveMessage"
      by (auto simp: systemMessages_def)
    from write_remove_all_stamped [OF this, of ids st] u show ?thesis by metis
  qed
qed

lemma persist_update: "fst (persist cfg up now st w) = no_update"
  by (simp add: persist_def split: prod.splits sum.splits)

lemma hydrate_node_step:
  "\<exists>ms w1. then_node (Inr st, w) ids (hydrate_node cfg ev) = (Inr (st\<lparr>messages := ms\<rparr>), w1)"
proof -
  from hydrate_applies obtain ms where
    "apply_update (stamped ids (fst (hydrate cfg (up_hydrate ev) st w))) st = Inr (st\<lparr>messages := ms\<rparr>)"
    by blast
  then have "then_node (Inr st, w) ids (hydrate_node cfg ev)
             = (Inr (st\<lparr>messages := ms\<rparr>), snd (hydrate cfg (up_hydrate ev) st w))"
    by (cases "hydrate cfg (up_hydrate ev) st w") (simp add: then_node_def hydrate_node_def)
  then show ?thesis by blast
qed

lemma summarize_node_step:
  "\<exists>ms w1. then_node (Inr st, w) ids (summarize_node cfg ev) = (Inr (st\<lparr>messages := ms\<rparr>), w1)"
proof -
  from summarize_applies obtain ms where
    "apply_update (stamped ids (fst (summarize cfg (beforeModel ev) (now_summarize ev) st w))) st
       = Inr (st\<lparr>messages := ms\<rparr>)" by blast
  then have "then_node (Inr st, w) ids (summarize_node cfg ev)
             = (Inr (st\<lparr>messages := ms\<rparr>), snd (summarize cfg (beforeModel ev) (now_summarize ev) st w))"
    by (cases "summarize cfg (beforeModel ev) (now_summarize ev) st w")
       (simp add: then_node_def summarize_node_def)
  then show ?thesis by blast
qed

lemma persist_node_step:
  "\<exists>w1. then_node (Inr st, w) ids (persist_node cfg ev) = (Inr st, w1)"
proof -
  have "then_node (Inr st, w) ids (persist_node cfg ev)
        = (Inr st, snd (persist cfg (up_persist ev) (now_persist ev) st w))"
    using persist_update [of cfg "up_persist ev" "now_persist ev" st w]
    by (cases "persist cfg (up_persist ev) (now_persist ev) st w")
       (simp add: then_node_def persist_node_def apply_no_update stamped_no_update)
  then show ?thesis by blast
qed

text \<open>A new message gets its id and is merged into the history.\<close>

lemma write_new_message:
  "c \<noteq> RemoveMessage \<Longrightarrow>
   \<exists>ms. messagesStateReducer left (stamp ids 0 [new_message c text]) = Inr ms"
  using reducer_single [of "(new_message c text)\<lparr>msg_id := Some (ids 0)\<rparr>" left]
  by (simp add: new_message_def)

lemma ingest_node_step:
  "\<exists>ms. then_node (Inr st, w) ids ingest_node = (Inr (st\<lparr>messages := ms\<rparr>), w)"
proof -
  from write_new_message [of HumanMessage "messages st" ids "input st"] obtain ms where
    "messagesStateReducer (messages st) (stamp ids 0 [new_message HumanMessage (input st)]) = Inr ms"
    by auto
  then have "then_node (Inr st, w) ids ingest_node = (Inr (st\<lparr>messages := ms\<rparr>), w)"
    by (simp add: then_node_def ingest_node_def ingest_def apply_update_def write_messages_def stamped_def)
  then show ?thesis by blast
qed

lemma rag_node_fails:
  "ragChain ev (input st) = Inl e \<Longrightarrow> then_node (Inr st, w) ids (rag_node ev) = (Inl e, w)"
  by (simp add: then_node_def rag_node_def rag_def)

lemma rag_node_step:
  assumes "ragChain ev (input st) = Inr res"
  shows "\<exists>ms. then_node (Inr st, w) ids (rag_node ev)
              = (Inr (st\<lparr>messages := ms,
                         answer := Some (answer_of res), rag_context := Some (context_of res)\<rparr>), w)"
proof -
  from write_new_message [of AIMessage "messages st" ids "answer_of res"] obtain ms where
    "messagesStateReducer (messages st) (stamp ids 0 [new_message AIMessage (answer_of res)]) = Inr ms"
    by auto
  with assms have "then_node (Inr st, w) ids (rag_node ev)
        = (Inr (st\<lparr>messages := ms,
                   answer := Some (answer_of res), rag_context := Some (context_of res)\<rparr>), w)"
    by (simp add: then_node_def rag_node_def rag_def apply_update_def stamped_def)
  then show ?thesis by blast
qed

lemma start_accepts:
  "messagesStateReducer [] (stamp ids 0 (messages inp)) = Inr ms0 \<Longrightarrow>
   start ids inp w = (Inr (inp\<lparr>messages := ms0\<rparr>), w)"
  by (simp add: start_def)

text \<open>The state and the world in which the rag node runs.\<close>

lemma before_rag:
  assumes "messagesStateReducer [] (stamp ids0 0 (messages inp)) = Inr ms0"
  shows "\<exists>ms w1. then_node (then_node (start ids0 inp w) ids1 (hydrate_node cfg ev)) ids2 ingest_node
                 = (Inr (inp\<lparr>messages := ms\<rparr>), w1)"
proof -
  from hydrate_node_step [of "inp\<lparr>messages := ms0\<rparr>" w ids1 cfg ev] obtain ms1 w1 where
    h: "then_node (Inr (inp\<lparr>messages := ms0\<rparr>), w) ids1 (hydrate_node cfg ev)
        = (Inr (inp\<lparr>messages := ms1\<rparr>), w1)"
    by auto
  from ingest_node_step [of "inp\<lparr>messages := ms1\<rparr>" w1 ids2] obtain ms2 where
    i: "then_node (Inr (inp\<lparr>messages := ms1\<rparr>), w1) ids2 ingest_node
        = (Inr (inp\<lparr>messages := ms2\<rparr>), w1)"
    by auto
  have "then_node (then_node (start ids0 inp w) ids1 (hydrate_node cfg ev)) ids2 ingest_node
        = (Inr (inp\<lparr>messages := ms2\<rparr>), w1)"
    by (simp only: start_accepts [OF assms] h i)
  then show ?thesis by blast
qed

lemma after_rag:
  "\<exists>st' w'. then_node (then_node (Inr st, w) ids4 (summarize_node cfg ev)) ids5 (persist_node cfg ev)
             = (Inr st', w')
           \<and> answer st' = answer st \<and> rag_context st' = rag_context st"
proof -
  from summarize_node_step [of st w ids4 cfg ev] obtain ms w1 where
    s: "then_node (Inr st, w) ids4 (summarize_node cfg ev) = (Inr (st\<lparr>messages := ms\<rparr>), w1)" by blast
  from persist_node_step [of "st\<lparr>messages := ms\<rparr>" w1 ids5 cfg ev] obtain w2 where
    p: "then_node (Inr (st\<lparr>messages := ms\<rparr>), w1) ids5 (persist_node cfg ev)
        = (Inr (st\<lparr>messages := ms\<rparr>), w2)"
    by blast
  have "then_node (then_node (Inr st, w) ids4 (summarize_node cfg ev)) ids5 (persist_node cfg ev)
        = (Inr (st\<lparr>messages := ms\<rparr>), w2)"
    by (simp only: s p)
  then show ?thesis by auto
qed

lemma invoke_rag_fails:
  assumes "messagesStateReducer [] (stamp (uuid ev 0) 0 (messages inp)) = Inr ms0"
    and "ragChain ev (input inp) = Inl e"
  shows "fst (invoke cfg ev inp w) = Inl e"
proof -
  from before_rag [OF assms(1), of w "uuid ev 1" cfg ev "uuid ev 2"] obtain ms w1 where
    b: "then_node (then_node (start (uuid ev 0) inp w) (uuid ev 1) (hydrate_node cfg ev))
          (uuid ev 2) ingest_node
        = (Inr (inp\<lparr>messages := ms\<rparr>), w1)" by blast
  have r: "then_node (Inr (inp\<lparr>messages := ms\<rparr>), w1) (uuid ev 3) (rag_node ev) = (Inl e, w1)"
    by (rule rag_node_fails) (simp add: assms(2))
  show ?thesis
    by (simp only: invoke_def b r then_node_error fst_conv)
qed

lemma invoke_rag_answers:
  assumes "messagesStateReducer [] (stamp (uuid ev 0) 0 (messages inp)) = Inr ms0"
    and "ragChain ev (input inp) = Inr res"
  shows "\<exists>st'. fst (invoke cfg ev inp w) = Inr st'
              \<and> answer st' = Some (answer_of res) \<and> rag_context st' = Some (context_of res)"
proof -
  from before_rag [OF assms(1), of w "uuid ev 1" cfg ev "uuid ev 2"] obtain ms w1 where
    b: "then_node (then_node (start (uuid ev 0) inp w) (uuid ev 1) (hydrate_node cfg ev))
          (uuid ev 2) ingest_node
        = (Inr (inp\<lparr>messages := ms\<rparr>), w1)" by blast
  from rag_node_step [of ev "inp\<lparr>messages := ms\<rparr>" res w1 "uuid ev 3"] assms(2) obtain ms3 where
    r: "then_node (Inr (inp\<lparr>messages := ms\<rparr>), w1) (uuid ev 3) (rag_node ev)
        = (Inr (inp\<lparr>messages := ms3,
                    answer := Some (answer_of res), rag_context := Some (context_of res)\<rparr>), w1)"
    by auto
  let ?st3 = "inp\<lparr>messages := ms3,
                  answer := Some (answer_of res), rag_context := Some (context_of res)\<rparr>"
  from after_rag [of ?st3 w1 "uuid ev 4" cfg ev "uuid ev 5"] obtain st' w' where
    a: "then_node (then_node (Inr ?st3, w1) (uuid ev 4) (summarize_node cfg ev))
          (uuid ev 5) (persist_node cfg ev) = (Inr st', w')"
    and k: "answer st' = answer ?st3" "rag_context st' = rag_context ?st3" by blast
  have "invoke cfg ev inp w = (Inr st', w')"
    by (simp only: invoke_def b r a)
  with k show ?thesis by simp
qed

lemma estimate_not_below_one: "\<not> estimateRedisValueBytes now ms \<le> Suc 0"
  using estimate_above_one [of now ms] by simp

text \<open>
  Claim C1: in every turn whose input the graph accepts, a failure of the load in the
  hydrate stage, of the summarization call in the summarize stage, or of the save in the
  persist stage is caught in the stage, which logs a warning and writes nothing: for the
  summarize stage, whenever the threshold is exceeded and there is a message to
  summarize, so that the call is made. The turn returns the answer of the retrieval
  chain whatever the store and the summary model do, and the turn fails exactly when the
  retrieval chain fails, with its error.
\<close>

theorem only_rag_failure_aborts:
  assumes "messagesStateReducer [] (stamp (uuid ev 0) 0 (messages state)) = Inr ms0"
  shows "(\<forall>e w1. loadMessagesFromRedis cfg (up_hydrate ev) (Some (thread_of st)) w = (Inl e, w1) \<longrightarrow>
            hydrate cfg (up_hydrate ev) st w = (no_update, warn (HydrateFailed e) w1))
       \<and> (\<forall>e mx. Option.bind cfg maxValueBytes = Some (Finite mx) \<and> 0 < mx
                 \<and> mx < int (estimateRedisValueBytes (now_summarize ev) (messages st))
                 \<and> nonSystemMessages (messages st) \<noteq> []
                 \<and> beforeModel ev (keepLastN cfg) (summary_prefix cfg) (nonSystemMessages (messages st))
                     = Inl e \<longrightarrow>
            summarize cfg (beforeModel ev) (now_summarize ev) st w
              = (no_update, warn (SummarizeFailed e) w))
       \<and> (\<forall>e w1. saveMessagesToRedis cfg (up_persist ev) (now_persist ev) (Some (thread_of st)) (messages st) w
                   = (Inl e, w1) \<longrightarrow>
            persist cfg (up_persist ev) (now_persist ev) st w = (no_update, warn (PersistFailed e) w1))
       \<and> (\<forall>e. ragChain ev question = Inl e \<longrightarrow> fst (ask cfg ev state question w) = Inl e)
       \<and> (\<forall>res. ragChain ev question = Inr res \<longrightarrow>
            (\<exists>r. fst (ask cfg ev state question w) = Inr r
                 \<and> ask_answer r = answer_of res \<and> ask_context r = context_of res))"
proof (intro conjI allI impI)
  fix e w1
  assume "loadMessagesFromRedis cfg (up_hydrate ev) (Some (thread_of st)) w = (Inl e, w1)"
  then show "hydrate cfg (up_hydrate ev) st w = (no_update, warn (HydrateFailed e) w1)"
    by (simp add: hydrate_def)
next
  fix e mx
  assume h: "Option.bind cfg maxValueBytes = Some (Finite mx) \<and> 0 < mx
             \<and> mx < int (estimateRedisValueBytes (now_summarize ev) (messages st))
             \<and> nonSystemMessages (messages st) \<noteq> []
             \<and> beforeModel ev (keepLastN cfg) (summary_prefix cfg) (nonSystemMessages (messages st))
                 = Inl e"
  then have c: "Option.bind cfg maxValueBytes = Some (Finite mx)" and p: "0 < mx"
    and x: "mx < int (estimateRedisValueBytes (now_summarize ev) (messages st))"
    and n: "nonSystemMessages (messages st) \<noteq> []"
    and f: "beforeModel ev (keepLastN cfg) (summary_prefix cfg) (nonSystemMessages (messages st)) = Inl e"
    by simp_all
  show "summarize cfg (beforeModel ev) (now_summarize ev) st w
          = (no_update, warn (SummarizeFailed e) w)"
    apply (subst summarize_above [OF c p x n])
    apply (subst f)
    apply (simp only: sum.case)
    done
next
  fix e w1
  assume "saveMessagesToRedis cfg (up_persist ev) (now_persist ev) (Some (thread_of st)) (messages st) w
            = (Inl e, w1)"
  then show "persist cfg (up_persist ev) (now_persist ev) st w = (no_update, warn (PersistFailed e) w1)"
    by (simp add: persist_def)
next
  fix e
  assume "ragChain ev question = Inl e"
  with assms have "fst (invoke cfg ev (state\<lparr>input := question\<rparr>) w) = Inl e"
    by (intro invoke_rag_fails) simp_all
  then show "fst (ask cfg ev state question w) = Inl e"
    by (cases "invoke cfg ev (state\<lparr>input := question\<rparr>) w") (simp add: ask_def)
next
  fix res
  assume "ragChain ev question = Inr res"
  with assms invoke_rag_answers [of ev "state\<lparr>input := question\<rparr>" ms0 res cfg w]
  obtain st' where i: "fst (invoke cfg ev (state\<lparr>input := question\<rparr>) w) = Inr st'"
    and k: "answer st' = Some (answer_of res)" "rag_context st' = Some (context_of res)"
    by auto
  from i k show "\<exists>r. fst (ask cfg ev state question w) = Inr r
                    \<and> ask_answer r = answer_of res \<and> ask_context r = context_of res"
    by (cases "invoke cfg ev (state\<lparr>input := question\<rparr>) w") (simp add: ask_def)
qed

theorem only_rag_failure_aborts_witness:
  "messagesStateReducer [] (stamp (uuid example_outage_env 0) 0 (messages (example_state []))) = Inr []
   \<and> 1 < int (estimateRedisValueBytes (now_summarize example_outage_env)
                (messages (example_state [new_message HumanMessage ''hi''])))
   \<and> nonSystemMessages (messages (example_state [new_message HumanMessage ''hi''])) \<noteq> []
   \<and> summarize (example_config 1) (beforeModel example_outage_env) (now_summarize example_outage_env)
        (example_state [new_message HumanMessage ''hi'']) example_world
      = (no_update, warn (SummarizeFailed (ServiceError ''model unavailable'')) example_world)
   \<and> map_sum id ask_answer
        (fst (ask (example_config 1) example_outage_env (example_state [])
                ''What is the refund policy?'' example_world))
      = Inr ''Refunds within 30 days.''
   \<and> console (snd (ask (example_config 1) example_outage_env (example_state [])
                      ''What is the refund policy?'' example_world))
      = [HydrateFailed RedisUnavailable, SummarizeFailed (ServiceError ''model unavailable''),
         PersistFailed RedisUnavailable]"
proof -
  let ?hi = "example_state [new_message HumanMessage ''hi'']"
  have a: "messagesStateReducer [] (stamp (uuid example_outage_env 0) 0 (messages (example_state []))) = Inr []"
    by (simp add: messagesStateReducer_def example_state_def)
  have r: "ragChain example_outage_env ''What is the refund policy?''
           = Inr \<lparr>res_answer = Some ''Refunds within 30 days.'', res_output = None,
                  res_context = Some [(''Refunds within 30 days.'', ''policy.md'')]\<rparr>"
    by (simp add: example_outage_env_def)
  have cfg: "Option.bind (example_config 1) maxValueBytes = Some (Finite 1)"
    by (simp add: example_config_def)
  have e: "1 < int (estimateRedisValueBytes (now_summarize example_outage_env) (messages ?hi))"
    by (rule estimate_above_one)
  have n: "nonSystemMessages (messages ?hi) \<noteq> []"
    by (simp add: nonSystemMessages_def example_state_def new_message_def)
  have f: "beforeModel example_outage_env (keepLastN (example_config 1)) (summary_prefix (example_config 1))
             (nonSystemMessages (messages ?hi)) = Inl (ServiceError ''model unavailable'')"
    by (simp add: example_outage_env_def)
  note t = only_rag_failure_aborts [OF a, of "example_config 1" ?hi example_world
             "''What is the refund policy?''"]
  have s: "summarize (example_config 1) (beforeModel example_outage_env) (now_summarize example_outage_env)
             ?hi example_world
           = (no_update, warn (SummarizeFailed (ServiceError ''model unavailable'')) example_world)"
    by (rule t [THEN conjunct2, THEN conjunct1, rule_format, of 1])
       (intro conjI cfg zero_less_one e n f)
  from t [THEN conjunct2, THEN conjunct2, THEN conjunct2, THEN conjunct2, rule_format, OF r]
  have b: "map_sum id ask_answer
        (fst (ask (example_config 1) example_outage_env (example_state [])
                ''What is the refund policy?'' example_world))
      = Inr ''Refunds within 30 days.''"
    by (auto simp: answer_of_def)
  have c: "console (snd (ask (example_config 1) example_outage_env (example_state [])
                      ''What is the refund policy?'' example_world))
      = [HydrateFailed RedisUnavailable, SummarizeFailed (ServiceError ''model unavailable''),
         PersistFailed RedisUnavailable]"
    by (simp add: ask_def invoke_def then_node_def start_def hydrate_node_def ingest_node_def
          rag_node_def summarize_node_def persist_node_def hydrate_def ingest_def rag_def
          summarize_def persist_def loadMessagesFromRedis_def saveMessagesToRedis_def
          getRedisClient_def example_config_def example_outage_env_def example_state_def
          example_world_def warn_def apply_update_def no_update_def write_messages_def
          messagesStateReducer_def is_remove_all_def new_message_def number_or_def stamped_def
          show_nat.simps digit_def
          nonSystemMessages_def estimate_not_below_one thread_of_def answer_of_def context_of_def)
  from a e n s b c show ?thesis by (intro conjI)
qed

end
